theory Spec2Isabelle
  imports Main "HOL-Library.Word"
begin

section \<open>Wire types used by the seeder\<close>

text \<open>
  \<open>net.IP\<close> is a byte slice; \<open>wire.ServiceFlag\<close> is a \<open>uint64\<close> bit field and a
  port is a \<open>uint16\<close>. Wall-clock time and durations are counted in nanoseconds, the
  unit of Go's \<open>time.Duration\<close>; the timestamp \<open>0\<close> stands for "never".
\<close>

type_synonym IP = "8 word list"
type_synonym ServiceFlag = "64 word"
type_synonym Time = nat

datatype SubnetworkID = SupportsAll | Subnetwork "8 word list"

record NetAddress =
  IP :: IP
  Port :: "16 word"
  Services :: ServiceFlag

record MsgVersion =
  msgServices :: ServiceFlag
  msgSubnetworkID :: SubnetworkID

definition second :: Time where
  "second = 1000000000"

text \<open>\<open>nodeTimeout = time.Second * 3\<close> (dnsseed.go, line 27).\<close>

definition nodeTimeout :: Time where
  "nodeTimeout = second * 3"

text \<open>
  Modelled from the spec: the constant \<open>wire.SFNodeNetwork\<close> belongs to the wire
  package, which is not part of the sources at hand; it is the lowest service bit
  (the spec's scenario 1 advertises \<open>services = 0x01\<close>).
\<close>

definition SFNodeNetwork :: ServiceFlag where
  "SFNodeNetwork = 1"

text \<open>\<open>requiredServices = wire.SFNodeNetwork\<close> (dnsseed.go, line 31).\<close>

definition requiredServices :: ServiceFlag where
  "requiredServices = SFNodeNetwork"

text \<open>\<open>wire.NewNetAddressIPPort(ip, port, services)\<close>.\<close>

definition NewNetAddressIPPort :: "IP \<Rightarrow> 16 word \<Rightarrow> ServiceFlag \<Rightarrow> NetAddress" where
  "NewNetAddressIPPort ip port services = \<lparr>IP = ip, Port = port, Services = services\<rparr>"

section \<open>The address store\<close>

text \<open>
  The type \<open>Manager\<close> and its methods are declared in a file of the repository that is
  not among the sources at hand; the crawler in dnsseed.go only calls them. The store
  below follows section 3 and section 4.1 of the specification.
\<close>

text \<open>
  Modelled from the spec: the address entry of section 3, without the derived state
  class; \<open>inFlight\<close> is the mark that \<open>Addresses()\<close> sets on a returned entry, with the
  time of the call.
\<close>

record Entry =
  ip :: IP
  port :: "16 word"
  services :: ServiceFlag
  subnetworkID :: "SubnetworkID option"
  firstSeen :: Time
  lastAttempt :: Time
  lastSuccess :: Time
  inFlight :: "Time option"

text \<open>
  Modelled from the spec: the store maps an IP to its entry; it is kept as the list of
  its entries, in the order of insertion.
\<close>

type_synonym Store = "Entry list"

text \<open>Modelled from the spec: "Hard cap: 50,000 entries."\<close>

definition storeCap :: nat where
  "storeCap = 50000"

text \<open>Modelled from the spec: "Minimum re-attempt interval per address: 60 s."\<close>

definition attemptInterval :: Time where
  "attemptInterval = 60 * second"

text \<open>Modelled from the spec: "Store in-flight timeout: 60 s."\<close>

definition inFlightTimeout :: Time where
  "inFlightTimeout = 60 * second"

text \<open>Modelled from the spec: whether the store has an entry for an IP.\<close>

definition known :: "Store \<Rightarrow> IP \<Rightarrow> bool" where
  "known s a = (a \<in> ip ` set s)"

text \<open>
  Modelled from the spec: the first twelve bytes of an IPv4 address in its v4-mapped
  16-byte form ("v4 stored as v4-mapped").
\<close>

definition v4prefix :: "8 word list" where
  "v4prefix = [0, 0, 0, 0, 0, 0, 0, 0, 0, 0, 255, 255]"

text \<open>Modelled from the spec: whether a 16-byte address is a v4-mapped one.\<close>

definition isV4 :: "IP \<Rightarrow> bool" where
  "isV4 a = (length a = 16 \<and> take 12 a = v4prefix)"

text \<open>Modelled from the spec: the unspecified IPv6 address.\<close>

definition unspecified6 :: IP where
  "unspecified6 = [0, 0, 0, 0, 0, 0, 0, 0, 0, 0, 0, 0, 0, 0, 0, 0]"

text \<open>Modelled from the spec: the IPv6 loopback address.\<close>

definition loopback6 :: IP where
  "loopback6 = [0, 0, 0, 0, 0, 0, 0, 0, 0, 0, 0, 0, 0, 0, 0, 1]"

text \<open>
  Modelled from the spec: the address filter of \<open>AddAddresses\<close> ("invalid IPs,
  unspecified/loopback/multicast/broadcast ranges, or non-routable port 0 are filtered
  out"), on the 16-byte form of an address.
\<close>

definition acceptable :: "NetAddress \<Rightarrow> bool" where
  "acceptable na =
     (let a = IP na in
      length a = 16 \<and> Port na \<noteq> 0
      \<and> a \<noteq> unspecified6
      \<and> a \<noteq> loopback6
      \<and> unat (hd a) \<noteq> 255
      \<and> \<not> (isV4 a \<and> (drop 12 a = [0, 0, 0, 0] \<or> unat (a ! 12) = 127
                      \<or> 224 \<le> unat (a ! 12) \<and> unat (a ! 12) < 240
                      \<or> drop 12 a = [255, 255, 255, 255])))"

text \<open>
  Modelled from the spec: a new entry is born with \<open>firstSeen = now\<close>, neither attempted
  nor succeeded, and with \<open>services\<close> zero, since that field is "set on first successful
  version exchange; zero if never succeeded". The service flags that came with the
  gossiped or injected address are not recorded.
\<close>

definition newEntry :: "Time \<Rightarrow> NetAddress \<Rightarrow> Entry" where
  "newEntry now na =
     \<lparr>ip = IP na, port = Port na, services = 0, subnetworkID = None,
      firstSeen = now, lastAttempt = 0, lastSuccess = 0, inFlight = None\<rparr>"

text \<open>
  Modelled from the spec: \<open>AddAddresses(list) \<rightarrow> count_new\<close> inserts each address whose
  IP is not already present, ignores duplicates and those that would exceed the cap,
  and returns the count of new inserts.
\<close>

fun AddAddresses :: "Time \<Rightarrow> NetAddress list \<Rightarrow> Store \<Rightarrow> nat \<times> Store" where
  "AddAddresses now [] s = (0, s)"
| "AddAddresses now (na # nas) s =
     (if acceptable na \<and> \<not> known s (IP na) \<and> length s < storeCap
      then (let (n, s') = AddAddresses now nas (s @ [newEntry now na]) in (Suc n, s'))
      else AddAddresses now nas s)"

text \<open>
  Modelled from the spec: \<open>Attempt(ip)\<close> sets \<open>lastAttempt = now\<close> for the matching entry
  if present and is a no-op otherwise. It is one of the reports that end the in-flight
  state of the address.
\<close>

definition Attempt :: "Time \<Rightarrow> IP \<Rightarrow> Store \<Rightarrow> Store" where
  "Attempt now a s =
     map (\<lambda>e. if ip e = a then e\<lparr>lastAttempt := now, inFlight := None\<rparr> else e) s"

text \<open>
  Modelled from the spec: \<open>Good(ip, services, subnetworkID)\<close> sets \<open>lastSuccess = now\<close>,
  \<open>lastAttempt = now\<close> and records \<open>services\<close> and \<open>subnetworkID\<close>; it creates the entry
  if it did not exist, with \<open>firstSeen = now\<close>. The spec gives no port for an entry
  created this way (the call carries none), so it is zero here; an insertion beyond
  the cap is rejected silently.
\<close>

definition Good :: "Time \<Rightarrow> IP \<Rightarrow> ServiceFlag \<Rightarrow> SubnetworkID \<Rightarrow> Store \<Rightarrow> Store" where
  "Good now a sv sid s =
     (if known s a
      then map (\<lambda>e. if ip e = a
                     then e\<lparr>services := sv, subnetworkID := Some sid, lastAttempt := now,
                            lastSuccess := now, inFlight := None\<rparr>
                     else e) s
      else if length s < storeCap
      then s @ [\<lparr>ip = a, port = 0, services = sv, subnetworkID = Some sid,
                 firstSeen = now, lastAttempt = now, lastSuccess = now, inFlight = None\<rparr>]
      else s)"

text \<open>
  Modelled from the spec: eligibility for crawling, "any entry NOT currently being
  crawled AND with \<open>now - lastAttempt \<ge> 60 seconds\<close> (or never attempted)", where the
  in-flight mark of an entry lapses after the 60-second in-flight timeout.
\<close>

definition eligible :: "Time \<Rightarrow> Entry \<Rightarrow> bool" where
  "eligible now e =
     ((case inFlight e of None \<Rightarrow> True | Some t \<Rightarrow> t + inFlightTimeout \<le> now)
      \<and> (lastAttempt e = 0 \<or> lastAttempt e + attemptInterval \<le> now))"

text \<open>Modelled from the spec: the address handed to the crawler for an entry.\<close>

definition toNetAddress :: "Entry \<Rightarrow> NetAddress" where
  "toNetAddress e = \<lparr>IP = ip e, Port = port e, Services = services e\<rparr>"

text \<open>
  Modelled from the spec: \<open>Addresses()\<close> returns the eligible entries and marks each
  returned entry in-flight. The spec randomises the order of the batch; the batch is
  given here in store order.
\<close>

definition Addresses :: "Time \<Rightarrow> Store \<Rightarrow> NetAddress list \<times> Store" where
  "Addresses now s =
     (map toNetAddress (filter (eligible now) s),
      map (\<lambda>e. if eligible now e then e\<lparr>inFlight := Some now\<rparr> else e) s)"

text \<open>Modelled from the spec: \<open>AddressCount() \<rightarrow> n\<close>, the total number of entries.\<close>

definition AddressCount :: "Store \<Rightarrow> nat" where
  "AddressCount s = length s"


text \<open>
  Modelled from the spec: the calls that a client of the store can make between two
  \<open>Addresses()\<close> calls. \<open>Attempt\<close> and \<open>Good\<close> report on an address; the spec names no
  separate operation for reporting a failure.
\<close>

datatype StoreCall =
    CallAddAddresses Time "NetAddress list"
  | CallAttempt Time IP
  | CallGood Time IP ServiceFlag SubnetworkID

text \<open>Modelled from the spec: the effect of such a call on the store.\<close>

fun applyCall :: "StoreCall \<Rightarrow> Store \<Rightarrow> Store" where
  "applyCall (CallAddAddresses now nas) s = snd (AddAddresses now nas s)"
| "applyCall (CallAttempt now a) s = Attempt now a s"
| "applyCall (CallGood now a sv sid) s = Good now a sv sid s"

text \<open>Modelled from the spec: whether a call reports on the given address.\<close>

fun reports :: "StoreCall \<Rightarrow> IP \<Rightarrow> bool" where
  "reports (CallAddAddresses now nas) a = False"
| "reports (CallAttempt now b) a = (a = b)"
| "reports (CallGood now b sv sid) a = (a = b)"

text \<open>
  Modelled from the spec: the states of the store that its operations can produce from
  the empty store. The wall clock never reads \<open>0\<close>, the value that stands for "never".
\<close>

inductive reachable :: "Store \<Rightarrow> bool" where
  empty: "reachable []"
| add: "reachable s \<Longrightarrow> 0 < now \<Longrightarrow> reachable (snd (AddAddresses now nas s))"
| attempt: "reachable s \<Longrightarrow> 0 < now \<Longrightarrow> reachable (Attempt now a s)"
| good: "reachable s \<Longrightarrow> 0 < now \<Longrightarrow> reachable (Good now a sv sid s)"
| addresses: "reachable s \<Longrightarrow> 0 < now \<Longrightarrow> reachable (snd (Addresses now s))"

section \<open>Startup: \<open>main\<close> (dnsseed.go, lines 157-216)\<close>

text \<open>
  The configuration type is declared outside the sources at hand; \<open>main\<close> reads the
  fields \<open>Seeder\<close>, \<open>Host\<close>, \<open>Nameserver\<close> and \<open>Listen\<close>.
\<close>

record Config =
  Seeder :: string
  Host :: string
  Nameserver :: string
  Listen :: string

text \<open>
  What \<open>main\<close> obtains from its surroundings: the results of \<open>loadConfig()\<close> and
  \<open>NewManager(defaultHomeDir)\<close> (an error message or a value), the string
  \<open>activeNetParams.DefaultPort\<close>, the library functions \<open>strconv.Atoi\<close>, \<open>net.ParseIP\<close>
  and \<open>net.LookupHost\<close>, and the wall clock.
\<close>

record MainEnv =
  loadConfig :: "string + Config"
  NewManager :: "string + Store"
  DefaultPort :: string
  Atoi :: "string \<Rightarrow> string + int"
  ParseIP :: "string \<Rightarrow> IP option"
  LookupHost :: "string \<Rightarrow> string + string list"
  clock :: Time

text \<open>
  How startup ends: \<open>os.Exit(code)\<close>, a run-time panic, or the point where the crawler
  and the DNS server are spawned (line 195 onwards).
\<close>

datatype Ending = Exit int | Panic | Spawned

record MainResult =
  ending :: Ending
  stderr :: "string list"
  logged :: "string list"
  injected :: "NetAddress list list"
  amgr :: "Store option"

definition newline :: string where
  "newline = [CHR 0x0A]"

definition fatal :: "string \<Rightarrow> MainResult" where
  "fatal msg = \<lparr>ending = Exit 1, stderr = [msg], logged = [], injected = [], amgr = None\<rparr>"

text \<open>
  Lines 176-187: the seeder value is parsed as an IP; failing that, the host is looked
  up and the first returned address is parsed. The result is the IP (or nil) and the
  lines logged; \<open>None\<close> is the panic of \<open>hostAddrs[0]\<close> on an empty slice.
\<close>

definition seederIP :: "MainEnv \<Rightarrow> string \<Rightarrow> (IP option \<times> string list) option" where
  "seederIP env seeder =
     (case ParseIP env seeder of
        Some a \<Rightarrow> Some (Some a, [])
      | None \<Rightarrow>
          (case LookupHost env seeder of
             Inl err \<Rightarrow>
               Some (None, [''Failed to resolve seed host: '' @ seeder @ '', '' @ err @ '', ignoring''])
           | Inr hostAddrs \<Rightarrow>
               (case hostAddrs of
                  [] \<Rightarrow> None
                | h # _ \<Rightarrow>
                    (case ParseIP env h of
                       Some a \<Rightarrow> Some (Some a, [])
                     | None \<Rightarrow>
                         Some (None, [''Failed to resolve seed host: '' @ seeder @ '', ignoring''])))))"

text \<open>
  Lines 175-193. \<open>peersDefaultPort\<close> is an \<open>int\<close>; \<open>uint16(peersDefaultPort)\<close> keeps its
  low 16 bits.
\<close>

definition injectSeeder :: "MainEnv \<Rightarrow> Config \<Rightarrow> int \<Rightarrow> Store \<Rightarrow> MainResult" where
  "injectSeeder env cfg peersDefaultPort m =
     (if length (Seeder cfg) \<noteq> 0
      then (case seederIP env (Seeder cfg) of
              None \<Rightarrow> \<lparr>ending = Panic, stderr = [], logged = [], injected = [], amgr = Some m\<rparr>
            | Some (None, logs) \<Rightarrow>
                \<lparr>ending = Spawned, stderr = [], logged = logs, injected = [], amgr = Some m\<rparr>
            | Some (Some a, logs) \<Rightarrow>
                (let nas = [NewNetAddressIPPort a (word_of_int peersDefaultPort) requiredServices]
                 in \<lparr>ending = Spawned, stderr = [], logged = logs, injected = [nas],
                     amgr = Some (snd (AddAddresses (clock env) nas m))\<rparr>))
      else \<lparr>ending = Spawned, stderr = [], logged = [], injected = [], amgr = Some m\<rparr>)"

definition main :: "MainEnv \<Rightarrow> MainResult" where
  "main env =
     (case loadConfig env of
        Inl err \<Rightarrow> fatal (''loadConfig: '' @ err @ newline)
      | Inr cfg \<Rightarrow>
          (case NewManager env of
             Inl err \<Rightarrow> fatal (''NewManager: '' @ err @ newline)
           | Inr m \<Rightarrow>
               (case Atoi env (DefaultPort env) of
                  Inl err \<Rightarrow>
                    fatal (''Invalid peers default port '' @ DefaultPort env @ '': '' @ err @ newline)
                | Inr peersDefaultPort \<Rightarrow> injectSeeder env cfg peersDefaultPort m)))"

section \<open>The idle sleep of the crawler (dnsseed.go, lines 94-104)\<close>

text \<open>
  \<open>for i := 0; i < 600; i++ { time.Sleep(time.Second); if atomic.LoadInt32(&systemShutdown) != 0 { return } }\<close>
  followed by \<open>continue\<close>. The argument \<open>flag i\<close> is what the load of the shutdown flag
  yields after the sleep of round \<open>i\<close>. The result is the number of one-second sleeps
  performed and how the loop was left.
\<close>

datatype Control = Return | Continue

function idleSleep :: "(nat \<Rightarrow> bool) \<Rightarrow> nat \<Rightarrow> nat \<times> Control" where
  "idleSleep flag i =
     (if i < 600
      then (if flag i then (Suc i, Return) else idleSleep flag (Suc i))
      else (i, Continue))"
  by pat_completeness auto
termination
  by (relation "measure (\<lambda>(flag, i). 600 - i)") auto

declare idleSleep.simps [simp del]

section \<open>A batch of crawl workers (dnsseed.go, lines 55-82 and 106-153)\<close>

text \<open>
  \<open>creep\<close> creates the channels \<open>onAddr\<close> and \<open>onVersion\<close> and the peer configuration
  with its two listeners once (lines 55-82), before its loop; every worker goroutine of
  every batch builds its peer from that one configuration, so all listeners send on
  the same two unbuffered channels and all workers receive from them. The batch is
  therefore a transition system: a state holds the store, one slot per spawned worker
  and the senders blocked on either channel; a step is one move of one worker, or the
  arrival of a message at one peer, which runs the listener up to its channel send.
\<close>

text \<open>
  The worker goroutine (lines 114-151): created, inside \<open>net.DialTimeout\<close> since a
  time, blocked in the first or the second \<open>select\<close> since a time, or returned.
\<close>

datatype Worker = Created | Dialing Time | WaitVersion Time | WaitAddr Time | Finished

text \<open>The connection of the peer object \<open>p\<close> of a worker.\<close>

datatype Conn = NoConn | Connected | Disconnected

text \<open>
  The message handling of a peer: no version message handled yet; inside \<open>OnVersion\<close>,
  blocked at \<open>onVersion <- struct{}{}\<close> (line 78); handshake done, address messages are
  dispatched; inside \<open>OnAddr\<close>, blocked at \<open>onAddr <- struct{}{}\<close> (line 68).
\<close>

datatype Listener = AwaitVersion | SendingVersion | AwaitAddr | SendingAddr

record Slot =
  addr :: NetAddress
  worker :: Worker
  conn :: Conn
  listener :: Listener

text \<open>The lines written with \<open>log.Printf\<close>, by the number of the worker concerned.\<close>

datatype LogLine =
    LogNewOutboundPeer nat string
  | LogDial nat string
  | LogVersionTimeout nat
  | LogGetaddrTimeout nat
  | LogAddingPeer nat ServiceFlag SubnetworkID
  | LogPeerSent nat nat nat

text \<open>
  What a run records, in order: the calls on the store, on the network and on the peer
  made by a worker or by the listeners of its peer, and the lines logged.
\<close>

datatype Event =
    EvAttempt nat IP
  | EvDial nat
  | EvAssociate nat
  | EvGood nat IP ServiceFlag SubnetworkID
  | EvQueueGetAddr nat
  | EvAddAddresses nat "NetAddress list"
  | EvDisconnect nat
  | EvLog LogLine

text \<open>
  A sender blocked on a channel is the listener of a worker of this batch (\<open>Some w\<close>) or
  a listener left blocked by an earlier batch (\<open>None\<close>). Senders are served in the
  order of their arrival.
\<close>

record Batch =
  store :: Store
  slots :: "Slot list"
  onVersion :: "nat option list"
  onAddr :: "nat option list"
  trace :: "Event list"
  wall :: Time

text \<open>
  The moves. \<open>NewOutboundPeer w r\<close> and \<open>DialTimeout w r\<close>: the call of worker \<open>w\<close>
  returns, with an error message or without. \<open>VersionArrives w msg\<close> and
  \<open>AddrArrives w l\<close>: the peer of worker \<open>w\<close> reads that message from its connection.
  \<open>SelectRecv w\<close> and \<open>SelectTimeout w\<close>: the pending \<open>select\<close> of worker \<open>w\<close> takes its
  channel case or its \<open>time.After(nodeTimeout)\<close> case.
\<close>

datatype Action =
    NewOutboundPeer nat "string option"
  | DialTimeout nat "string option"
  | VersionArrives nat MsgVersion
  | AddrArrives nat "NetAddress list"
  | SelectRecv nat
  | SelectTimeout nat

fun actor :: "Action \<Rightarrow> nat" where
  "actor (NewOutboundPeer w r) = w"
| "actor (DialTimeout w r) = w"
| "actor (VersionArrives w msg) = w"
| "actor (AddrArrives w l) = w"
| "actor (SelectRecv w) = w"
| "actor (SelectTimeout w) = w"

definition emit :: "Event list \<Rightarrow> Batch \<Rightarrow> Batch" where
  "emit es st = st\<lparr>trace := trace st @ es\<rparr>"

definition modSlot :: "nat \<Rightarrow> (Slot \<Rightarrow> Slot) \<Rightarrow> Batch \<Rightarrow> Batch" where
  "modSlot w f st = st\<lparr>slots := (slots st)[w := f (slots st ! w)]\<rparr>"

text \<open>A completed channel send lets the sending listener return to its peer.\<close>

fun resume :: "nat option \<Rightarrow> Batch \<Rightarrow> Batch" where
  "resume None st = st"
| "resume (Some v) st = modSlot v (\<lambda>sl. sl\<lparr>listener := AwaitAddr\<rparr>) st"

text \<open>
  Lines 117-124: a failure of \<open>peer.NewOutboundPeer\<close> is logged and the worker returns;
  otherwise \<open>amgr.Attempt(addr.IP)\<close> is called and the dial begins.
\<close>

definition doNewOutboundPeer :: "Time \<Rightarrow> nat \<Rightarrow> string option \<Rightarrow> Batch \<Rightarrow> Batch option" where
  "doNewOutboundPeer t w r st =
     (let sl = slots st ! w in
      if worker sl \<noteq> Created then None
      else (case r of
              Some err \<Rightarrow>
                Some (emit [EvLog (LogNewOutboundPeer w err)]
                       (modSlot w (\<lambda>sl. sl\<lparr>worker := Finished\<rparr>) st))
            | None \<Rightarrow>
                Some (emit [EvAttempt w (IP (addr sl)), EvDial w]
                       (modSlot w (\<lambda>sl. sl\<lparr>worker := Dialing t\<rparr>)
                         (st\<lparr>store := Attempt t (IP (addr sl)) (store st)\<rparr>)))))"

text \<open>
  Lines 125-130: a dial error is logged and the worker returns; a connection, which
  \<open>net.DialTimeout\<close> delivers only within \<open>nodeTimeout\<close>, is associated with the peer
  and the worker enters the first \<open>select\<close>.
\<close>

definition doDialTimeout :: "Time \<Rightarrow> nat \<Rightarrow> string option \<Rightarrow> Batch \<Rightarrow> Batch option" where
  "doDialTimeout t w r st =
     (case worker (slots st ! w) of
        Dialing t0 \<Rightarrow>
          (case r of
             Some err \<Rightarrow>
               Some (emit [EvLog (LogDial w err)]
                      (modSlot w (\<lambda>sl. sl\<lparr>worker := Finished\<rparr>) st))
           | None \<Rightarrow>
               if t0 + nodeTimeout < t then None
               else Some (emit [EvAssociate w]
                           (modSlot w (\<lambda>sl. sl\<lparr>worker := WaitVersion t, conn := Connected\<rparr>) st)))
      | _ \<Rightarrow> None)"

text \<open>
  The listener \<open>OnVersion\<close> (lines 70-79), run by a connected peer for the version
  message of its remote: it logs, calls \<open>amgr.Good(p.NA().IP, msg.Services, &msg.SubnetworkID)\<close>,
  queues \<open>getaddr\<close> and then sends on \<open>onVersion\<close>. The address of the peer is the one
  the worker built it from.
\<close>

definition doVersionArrives :: "Time \<Rightarrow> nat \<Rightarrow> MsgVersion \<Rightarrow> Batch \<Rightarrow> Batch option" where
  "doVersionArrives t w msg st =
     (let sl = slots st ! w; a = IP (addr sl) in
      if conn sl = Connected \<and> listener sl = AwaitVersion
      then Some (emit [EvLog (LogAddingPeer w (msgServices msg) (msgSubnetworkID msg)),
                       EvGood w a (msgServices msg) (msgSubnetworkID msg),
                       EvQueueGetAddr w]
                  (modSlot w (\<lambda>sl. sl\<lparr>listener := SendingVersion\<rparr>)
                    (st\<lparr>store := Good t a (msgServices msg) (msgSubnetworkID msg) (store st),
                        onVersion := onVersion st @ [Some w]\<rparr>)))
      else None)"

text \<open>
  The listener \<open>OnAddr\<close> (lines 64-69), run by a connected peer after its handshake: it
  calls \<open>amgr.AddAddresses(msg.AddrList)\<close>, logs the counts and then sends on \<open>onAddr\<close>.
\<close>

definition doAddrArrives :: "Time \<Rightarrow> nat \<Rightarrow> NetAddress list \<Rightarrow> Batch \<Rightarrow> Batch option" where
  "doAddrArrives t w l st =
     (let sl = slots st ! w in
      if conn sl = Connected \<and> listener sl = AwaitAddr
      then (let (added, s') = AddAddresses t l (store st) in
            Some (emit [EvAddAddresses w l, EvLog (LogPeerSent w (length l) added)]
                   (modSlot w (\<lambda>sl. sl\<lparr>listener := SendingAddr\<rparr>)
                     (st\<lparr>store := s', onAddr := onAddr st @ [Some w]\<rparr>))))
      else None)"

text \<open>
  The channel cases of the two \<open>select\<close> statements (lines 134 and 143). A receive needs
  a sender blocked on the channel and completes the send of the first one. After
  \<open>onVersion\<close> the worker enters the second \<open>select\<close>; after \<open>onAddr\<close> it disconnects
  (line 150) and returns.
\<close>

definition doSelectRecv :: "Time \<Rightarrow> nat \<Rightarrow> Batch \<Rightarrow> Batch option" where
  "doSelectRecv t w st =
     (case worker (slots st ! w) of
        WaitVersion t0 \<Rightarrow>
          (case onVersion st of
             [] \<Rightarrow> None
           | x # q \<Rightarrow>
               Some (modSlot w (\<lambda>sl. sl\<lparr>worker := WaitAddr t\<rparr>)
                      (resume x (st\<lparr>onVersion := q\<rparr>))))
      | WaitAddr t0 \<Rightarrow>
          (case onAddr st of
             [] \<Rightarrow> None
           | x # q \<Rightarrow>
               Some (emit [EvDisconnect w]
                      (modSlot w (\<lambda>sl. sl\<lparr>worker := Finished, conn := Disconnected\<rparr>)
                        (resume x (st\<lparr>onAddr := q\<rparr>)))))
      | _ \<Rightarrow> None)"

text \<open>
  The timer cases (lines 135-139 and 144-148), possible once \<open>nodeTimeout\<close> has passed
  since the \<open>select\<close> began: the timeout is logged, the peer is disconnected and the
  worker returns. Neither branch calls the store.
\<close>

definition doSelectTimeout :: "Time \<Rightarrow> nat \<Rightarrow> Batch \<Rightarrow> Batch option" where
  "doSelectTimeout t w st =
     (case worker (slots st ! w) of
        WaitVersion t0 \<Rightarrow>
          if t < t0 + nodeTimeout then None
          else Some (emit [EvLog (LogVersionTimeout w), EvDisconnect w]
                      (modSlot w (\<lambda>sl. sl\<lparr>worker := Finished, conn := Disconnected\<rparr>) st))
      | WaitAddr t0 \<Rightarrow>
          if t < t0 + nodeTimeout then None
          else Some (emit [EvLog (LogGetaddrTimeout w), EvDisconnect w]
                      (modSlot w (\<lambda>sl. sl\<lparr>worker := Finished, conn := Disconnected\<rparr>) st))
      | _ \<Rightarrow> None)"

fun act :: "Time \<Rightarrow> Action \<Rightarrow> Batch \<Rightarrow> Batch option" where
  "act t (NewOutboundPeer w r) st = doNewOutboundPeer t w r st"
| "act t (DialTimeout w r) st = doDialTimeout t w r st"
| "act t (VersionArrives w msg) st = doVersionArrives t w msg st"
| "act t (AddrArrives w l) st = doAddrArrives t w l st"
| "act t (SelectRecv w) st = doSelectRecv t w st"
| "act t (SelectTimeout w) st = doSelectTimeout t w st"

text \<open>
  A step happens at a time not before the previous one and concerns a worker of the
  batch; \<open>None\<close> says that the move is not possible in the state.
\<close>

definition step :: "Time \<times> Action \<Rightarrow> Batch \<Rightarrow> Batch option" where
  "step ta st =
     (if fst ta < wall st \<or> length (slots st) \<le> actor (snd ta) then None
      else act (fst ta) (snd ta) (st\<lparr>wall := fst ta\<rparr>))"

fun run :: "(Time \<times> Action) list \<Rightarrow> Batch \<Rightarrow> Batch option" where
  "run [] st = Some st"
| "run (ta # tas) st = (case step ta st of None \<Rightarrow> None | Some st' \<Rightarrow> run tas st')"

text \<open>
  Lines 106-152: one goroutine per address of the batch. \<open>pendingVersion\<close> and
  \<open>pendingAddr\<close> count the listeners that earlier batches left blocked on the channels.
\<close>

definition spawn :: "Time \<Rightarrow> NetAddress list \<Rightarrow> nat \<Rightarrow> nat \<Rightarrow> Store \<Rightarrow> Batch" where
  "spawn t peers pendingVersion pendingAddr s =
     \<lparr>store = s,
      slots = map (\<lambda>na. \<lparr>addr = na, worker = Created, conn = NoConn, listener = AwaitVersion\<rparr>) peers,
      onVersion = replicate pendingVersion None,
      onAddr = replicate pendingAddr None,
      trace = [],
      wall = t\<rparr>"

text \<open>\<open>wgCreep.Wait()\<close> returns when every worker of the batch has returned.\<close>

definition allFinished :: "Batch \<Rightarrow> bool" where
  "allFinished st = list_all (\<lambda>sl. worker sl = Finished) (slots st)"

text \<open>Whether event \<open>a\<close> comes before every occurrence of event \<open>b\<close> in a trace.\<close>

fun precedes :: "Event \<Rightarrow> Event \<Rightarrow> Event list \<Rightarrow> bool" where
  "precedes a b [] = True"
| "precedes a b (e # es) = (if e = a then True else if e = b then False else precedes a b es)"

text \<open>The worker whose number a logged line or an event carries.\<close>

fun logOwner :: "LogLine \<Rightarrow> nat" where
  "logOwner (LogNewOutboundPeer w e) = w"
| "logOwner (LogDial w e) = w"
| "logOwner (LogVersionTimeout w) = w"
| "logOwner (LogGetaddrTimeout w) = w"
| "logOwner (LogAddingPeer w sv sid) = w"
| "logOwner (LogPeerSent w n m) = w"

fun owner :: "Event \<Rightarrow> nat" where
  "owner (EvAttempt w a) = w"
| "owner (EvDial w) = w"
| "owner (EvAssociate w) = w"
| "owner (EvGood w a sv sid) = w"
| "owner (EvQueueGetAddr w) = w"
| "owner (EvAddAddresses w l) = w"
| "owner (EvDisconnect w) = w"
| "owner (EvLog l) = logOwner l"

text \<open>The events of one worker in a trace.\<close>

definition wevents :: "nat \<Rightarrow> Event list \<Rightarrow> Event list" where
  "wevents w tr = filter (\<lambda>e. owner e = w) tr"

section \<open>The crawl loop: \<open>creep\<close> (dnsseed.go, lines 84-154)\<close>

text \<open>
  What persists from one iteration to the next: the store and the listeners still
  blocked on the two channels.
\<close>

record Crawler =
  amgrC :: Store
  pendingVersion :: nat
  pendingAddr :: nat

text \<open>
  What one iteration obtains from its surroundings: the wall clock at the first
  \<open>amgr.Addresses()\<close> and at the bootstrap, the address lists that
  \<open>connmgr.SeedFromDNS\<close> hands to its callback, the value of \<open>systemShutdown\<close> loaded
  after the sleep of round \<open>i\<close> and before the spawn of worker \<open>i\<close>, and the moves of the
  workers and peers of the batch.
\<close>

record IterEnv =
  tAddresses :: Time
  tSeed :: Time
  seeds :: "NetAddress list list"
  sleepFlag :: "nat \<Rightarrow> bool"
  spawnFlag :: "nat \<Rightarrow> bool"
  schedule :: "(Time \<times> Action) list"

text \<open>
  What one iteration did: the store it began with, whether it invoked \<open>SeedFromDNS\<close>,
  the seconds slept, the events of its batch, how it ended and what it leaves.
\<close>

record Iteration =
  before :: Store
  seeded :: bool
  slept :: nat
  events :: "Event list"
  control :: Control
  after :: Crawler

text \<open>
  Lines 89-91: the callback given to \<open>SeedFromDNS\<close> passes each list of discovered
  addresses to \<open>amgr.AddAddresses\<close>.
\<close>

definition seedFromDNS :: "Time \<Rightarrow> NetAddress list list \<Rightarrow> Store \<Rightarrow> Store" where
  "seedFromDNS t batches s = fold (\<lambda>addrs s. snd (AddAddresses t addrs s)) batches s"

text \<open>
  Lines 106-113: before each spawn the shutdown flag is loaded; when it is set, no
  further worker is spawned and \<open>creep\<close> returns after the spawned ones.
\<close>

fun spawnLoop :: "(nat \<Rightarrow> bool) \<Rightarrow> nat \<Rightarrow> NetAddress list \<Rightarrow> NetAddress list \<times> Control" where
  "spawnLoop flag i [] = ([], Continue)"
| "spawnLoop flag i (a # as) =
     (if flag i then ([], Return)
      else (case spawnLoop flag (Suc i) as of (ws, ctl) \<Rightarrow> (a # ws, ctl)))"

text \<open>
  Lines 86-93: the candidates, and the bootstrap when there are none and the store
  counts no entry. The result is whether \<open>SeedFromDNS\<close> was invoked, the candidates and
  the store.
\<close>

definition candidates :: "IterEnv \<Rightarrow> Store \<Rightarrow> bool \<times> NetAddress list \<times> Store" where
  "candidates env s =
     (case Addresses (tAddresses env) s of
        (peers, s1) \<Rightarrow>
          if length peers = 0 \<and> AddressCount s1 = 0
          then (True, Addresses (tSeed env) (seedFromDNS (tSeed env) (seeds env) s1))
          else (False, peers, s1))"

text \<open>
  One pass through the body of the \<open>for\<close> loop. \<open>None\<close>: the moves given leave a worker
  unfinished, so \<open>wgCreep.Wait()\<close> does not return.
\<close>

definition creepIteration :: "IterEnv \<Rightarrow> Crawler \<Rightarrow> Iteration option" where
  "creepIteration env c =
     (case candidates env (amgrC c) of
        (seed, peers, s) \<Rightarrow>
          if length peers = 0
          then (case idleSleep (sleepFlag env) 0 of
                  (n, ctl) \<Rightarrow>
                    Some \<lparr>before = amgrC c, seeded = seed, slept = n, events = [],
                          control = ctl, after = c\<lparr>amgrC := s\<rparr>\<rparr>)
          else (case spawnLoop (spawnFlag env) 0 peers of
                  (ws, ctl) \<Rightarrow>
                    (case run (schedule env)
                            (spawn (tSeed env) ws (pendingVersion c) (pendingAddr c) s) of
                       None \<Rightarrow> None
                     | Some st \<Rightarrow>
                         if allFinished st
                         then Some \<lparr>before = amgrC c, seeded = seed, slept = 0,
                                    events = trace st, control = ctl,
                                    after = \<lparr>amgrC = store st,
                                             pendingVersion = length (onVersion st),
                                             pendingAddr = length (onAddr st)\<rparr>\<rparr>
                         else None)))"

text \<open>
  The loop, for as many iterations as inputs are given: the iterations performed, up to
  the one that returns or that never ends.
\<close>

fun creep :: "IterEnv list \<Rightarrow> Crawler \<Rightarrow> Iteration list" where
  "creep [] c = []"
| "creep (env # envs) c =
     (case creepIteration env c of
        None \<Rightarrow> []
      | Some it \<Rightarrow> it # (if control it = Return then [] else creep envs (after it)))"

section \<open>Notions used in the proofs\<close>

text \<open>
  What a step of worker \<open>v\<close> leaves alone: the number of slots, the addresses, the other
  workers and their connections; the events it adds are its own.
\<close>

definition frame :: "nat \<Rightarrow> Batch \<Rightarrow> Batch \<Rightarrow> bool" where
  "frame v st st' =
     (length (slots st') = length (slots st)
      \<and> (\<exists>es. trace st' = trace st @ es \<and> (\<forall>e\<in>set es. owner e = v))
      \<and> (\<forall>w. addr (slots st' ! w) = addr (slots st ! w))
      \<and> (\<forall>w. w \<noteq> v \<longrightarrow> worker (slots st' ! w) = worker (slots st ! w)
                       \<and> conn (slots st' ! w) = conn (slots st ! w)))"

text \<open>Every \<open>Good\<close> call of worker \<open>w\<close> in a trace is for the address \<open>a\<close>.\<close>

fun goodAt :: "nat \<Rightarrow> IP \<Rightarrow> Event \<Rightarrow> bool" where
  "goodAt w a (EvGood w' a' sv sid) = (w' = w \<longrightarrow> a' = a)"
| "goodAt w a e = True"

text \<open>The order of the calls of worker \<open>w\<close> on the address \<open>a\<close>.\<close>

definition ordered :: "nat \<Rightarrow> IP \<Rightarrow> Event list \<Rightarrow> bool" where
  "ordered w a tr =
     (precedes (EvAttempt w a) (EvDial w) tr
      \<and> precedes (EvDial w) (EvAssociate w) tr
      \<and> (\<forall>a' sv sid. precedes (EvAssociate w) (EvGood w a' sv sid) tr)
      \<and> list_all (goodAt w a) tr)"

text \<open>
  The invariant of a batch for worker \<open>w\<close>: its calls are ordered, a dialling worker
  has begun its dial, and a connected peer has been associated.
\<close>

definition orderInv :: "nat \<Rightarrow> Batch \<Rightarrow> bool" where
  "orderInv w st =
     (ordered w (IP (addr (slots st ! w))) (trace st)
      \<and> ((\<exists>t0. worker (slots st ! w) = Dialing t0) \<longrightarrow> EvDial w \<in> set (trace st))
      \<and> (conn (slots st ! w) = Connected \<longrightarrow> EvAssociate w \<in> set (trace st)))"



text \<open>The store holds exactly the entry \<open>e\<close> for the address \<open>a\<close>.\<close>

definition sole :: "IP \<Rightarrow> Entry \<Rightarrow> Store \<Rightarrow> bool" where
  "sole a e s = (e \<in> set s \<and> ip e = a \<and> (\<forall>d\<in>set s. ip d = a \<longrightarrow> d = e))"


section \<open>Example inputs\<close>

definition exA :: IP where
  "exA = [0, 0, 0, 0, 0, 0, 0, 0, 0, 0, 255, 255, 1, 2, 3, 4]"

definition exB :: IP where
  "exB = [0, 0, 0, 0, 0, 0, 0, 0, 0, 0, 255, 255, 5, 6, 7, 8]"

definition exEnv :: MainEnv where
  "exEnv =
     \<lparr>loadConfig = Inr \<lparr>Seeder = ''seed.example'', Host = ''seed.example.net'',
                        Nameserver = ''ns.example.net'', Listen = '':5354''\<rparr>,
      NewManager = Inr [],
      DefaultPort = ''16111'',
      Atoi = (\<lambda>s. if s = ''16111'' then Inr 16111 else Inl ''invalid syntax''),
      ParseIP = (\<lambda>s. if s = ''1.2.3.4'' then Some exA
                       else if s = ''5.6.7.8'' then Some exB else None),
      LookupHost = (\<lambda>h. if h = ''seed.example'' then Inr [''1.2.3.4'', ''5.6.7.8'']
                          else Inl ''no such host''),
      clock = 5\<rparr>"

definition millisecond :: Time where "millisecond = 1000000"

definition exNaA :: NetAddress where "exNaA = NewNetAddressIPPort exA 16111 requiredServices"

definition exNaB :: NetAddress where "exNaB = NewNetAddressIPPort exB 16111 requiredServices"

definition exStore :: Store where "exStore = [newEntry 5 exNaA, newEntry 5 exNaB]"

definition exStoreA :: Store where "exStoreA = [newEntry 5 exNaA]"

definition exT :: Time where "exT = 1000 * second"

definition exVersion :: MsgVersion where
  "exVersion = \<lparr>msgServices = SFNodeNetwork, msgSubnetworkID = SupportsAll\<rparr>"

text \<open>The batch that \<open>Addresses()\<close> hands out at time \<open>exT\<close>, for either store.\<close>

definition exBatch :: Batch where
  "exBatch = spawn exT (fst (Addresses exT exStore)) 0 0 (snd (Addresses exT exStore))"

definition exBatchA :: Batch where
  "exBatchA = spawn exT (fst (Addresses exT exStoreA)) 0 0 (snd (Addresses exT exStoreA))"


text \<open>
  Two workers. Both connect after 0.1 s. The version message of the second peer
  arrives 2.8 s after its connection; the first worker, waiting on the same channel,
  receives the signal of that listener. The second worker times out 3 s after its
  connection. The version message of the first peer arrives 4.9 s after its
  connection, while its worker waits for addresses; that wait times out 3 s after it
  began.
\<close>

definition exCrosstalk :: "(Time \<times> Action) list" where
  "exCrosstalk =
     [(exT, NewOutboundPeer 0 None),
      (exT, NewOutboundPeer 1 None),
      (exT + 100 * millisecond, DialTimeout 0 None),
      (exT + 100 * millisecond, DialTimeout 1 None),
      (exT + 2900 * millisecond, VersionArrives 1 exVersion),
      (exT + 2900 * millisecond, SelectRecv 0),
      (exT + 3100 * millisecond, SelectTimeout 1),
      (exT + 5000 * millisecond, VersionArrives 0 exVersion),
      (exT + 5900 * millisecond, SelectTimeout 0)]"

text \<open>One worker whose peer answers with its version and with one address.\<close>

definition exHappy :: "(Time \<times> Action) list" where
  "exHappy =
     [(exT, NewOutboundPeer 0 None),
      (exT + 100 * millisecond, DialTimeout 0 None),
      (exT + 200 * millisecond, VersionArrives 0 exVersion),
      (exT + 200 * millisecond, SelectRecv 0),
      (exT + 300 * millisecond, AddrArrives 0 [exNaB]),
      (exT + 300 * millisecond, SelectRecv 0)]"

text \<open>The state of that worker once connected, waiting for the version message.\<close>

definition exWaiting :: Batch where
  "exWaiting = the (run (take 2 exHappy) exBatchA)"

text \<open>An iteration on an empty store with the shutdown flag set.\<close>

definition exIdleEnv :: IterEnv where
  "exIdleEnv = \<lparr>tAddresses = exT, tSeed = exT, seeds = [], sleepFlag = (\<lambda>i. True),
                 spawnFlag = (\<lambda>i. False), schedule = []\<rparr>"

definition exEmpty :: Crawler where
  "exEmpty = \<lparr>amgrC = [], pendingVersion = 0, pendingAddr = 0\<rparr>"

section \<open>Properties\<close>

subsection \<open>Helper lemmas about the store\<close>

lemma snd_AddAddresses_Cons:
  "snd (AddAddresses now (na # nas) s) =
     (if acceptable na \<and> \<not> known s (IP na) \<and> length s < storeCap
      then snd (AddAddresses now nas (s @ [newEntry now na]))
      else snd (AddAddresses now nas s))"
  by (simp add: case_prod_unfold Let_def)

lemma AddAddresses_inv:
  "\<forall>e\<in>set s. P e \<Longrightarrow> (\<And>na. P (newEntry now na)) \<Longrightarrow>
   \<forall>e\<in>set (snd (AddAddresses now nas s)). P e"
proof (induction nas arbitrary: s)
  case Nil
  then show ?case by simp
next
  case (Cons na nas)
  have "\<forall>e\<in>set (s @ [newEntry now na]). P e" using Cons.prems by simp
  then have "\<forall>e\<in>set (snd (AddAddresses now nas (s @ [newEntry now na]))). P e"
    using Cons.IH Cons.prems(2) by blast
  moreover have "\<forall>e\<in>set (snd (AddAddresses now nas s)). P e"
    using Cons.IH Cons.prems by blast
  ultimately show ?case unfolding snd_AddAddresses_Cons by presburger
qed

lemma acceptable_exA: "acceptable (NewNetAddressIPPort exA 16111 sv)"
  by (simp add: acceptable_def NewNetAddressIPPort_def exA_def isV4_def v4prefix_def
      unspecified6_def loopback6_def)

lemma acceptable_ex: "acceptable exNaA" "acceptable exNaB"
  by (simp_all add: acceptable_def exNaA_def exNaB_def NewNetAddressIPPort_def exA_def exB_def
      isV4_def v4prefix_def unspecified6_def loopback6_def)

subsection \<open>Services of entries that never succeeded\<close>

lemma reachable_unsucceeded:
  "reachable s \<Longrightarrow> \<forall>e\<in>set s. lastSuccess e = 0 \<longrightarrow> services e = 0"
proof (induction rule: reachable.induct)
  case empty
  then show ?case by simp
next
  case (add s now nas)
  then show ?case
    by (intro AddAddresses_inv) (auto simp: newEntry_def)
next
  case (attempt s now a)
  then show ?case by (auto simp: Attempt_def)
next
  case (good s now a sv sid)
  then show ?case by (auto simp: Good_def)
next
  case (addresses s now)
  then show ?case by (auto simp: Addresses_def)
qed

lemma reachable_seedFromDNS:
  "reachable s \<Longrightarrow> 0 < t \<Longrightarrow> reachable (seedFromDNS t batches s)"
  unfolding seedFromDNS_def
  by (induction batches arbitrary: s) (simp_all add: reachable.add)

lemma reachable_main:
  assumes "NewManager env = Inr m" "reachable m" "0 < clock env" "amgr (main env) = Some s'"
  shows "reachable s'"
proof -
  obtain cfg p where "amgr (injectSeeder env cfg p m) = Some s'"
    using assms(1,4)
    by (auto simp: main_def fatal_def split: sum.splits)
  then have "s' = m \<or> (\<exists>nas. s' = snd (AddAddresses (clock env) nas m))"
    by (auto simp: injectSeeder_def Let_def simp del: AddAddresses.simps
             split: if_splits option.splits prod.splits)
  then show ?thesis using assms(2,3) reachable.add by blast
qed

text \<open>
  C3. In every state of the store reachable from the empty store by \<open>AddAddresses\<close>,
  \<open>Attempt\<close>, \<open>Good\<close> and \<open>Addresses\<close>, an entry that never had a successful version
  exchange (\<open>lastSuccess = 0\<close>) has \<open>services = 0\<close>. The store that \<open>main\<close> hands on
  after the seeder injection is such a state, and so is the store after the bootstrap
  callback of \<open>creep\<close>, although the addresses injected there carry
  \<open>requiredServices\<close>.
\<close>

theorem never_succeeded_services_zero:
  "(reachable s \<longrightarrow> (\<forall>e\<in>set s. lastSuccess e = 0 \<longrightarrow> services e = 0))
   \<and> (reachable m \<and> 0 < clock env \<and> NewManager env = Inr m \<and> amgr (main env) = Some s'
        \<longrightarrow> reachable s')
   \<and> (reachable s \<and> 0 < t \<longrightarrow> reachable (seedFromDNS t batches s))"
  using reachable_unsucceeded reachable_main reachable_seedFromDNS by blast

theorem never_succeeded_services_zero_witness:
  "amgr (main exEnv) = Some [newEntry 5 (NewNetAddressIPPort exA 16111 requiredServices)]
   \<and> reachable [newEntry 5 (NewNetAddressIPPort exA 16111 requiredServices)]
   \<and> lastSuccess (newEntry 5 (NewNetAddressIPPort exA 16111 requiredServices)) = 0
   \<and> Services (NewNetAddressIPPort exA 16111 requiredServices) = SFNodeNetwork
   \<and> services (newEntry 5 (NewNetAddressIPPort exA 16111 requiredServices)) = 0
   \<and> reachable (seedFromDNS 7 [[exNaB]] [newEntry 5 (NewNetAddressIPPort exA 16111 requiredServices)])
   \<and> map services (seedFromDNS 7 [[exNaB]] [newEntry 5 (NewNetAddressIPPort exA 16111 requiredServices)])
       = [0, 0]"
proof -
  let ?e = "newEntry 5 (NewNetAddressIPPort exA 16111 requiredServices)"
  have a: "amgr (main exEnv) = Some [?e]"
    by (simp add: main_def exEnv_def injectSeeder_def seederIP_def acceptable_exA known_def storeCap_def)
  have h: "reachable [] \<and> 0 < clock exEnv \<and> NewManager exEnv = Inr [] \<and> amgr (main exEnv) = Some [?e]"
    using a by (simp add: reachable.empty) (simp add: exEnv_def)
  note t = never_succeeded_services_zero [where m = "[]" and env = exEnv and s' = "[?e]" and s = "[?e]"
      and t = 7 and batches = "[[exNaB]]"]
  from t h have r: "reachable [?e]" by blast
  have l: "lastSuccess ?e = 0" by (simp add: newEntry_def)
  from t r l have z: "services ?e = 0" by simp
  from t r have r2: "reachable (seedFromDNS 7 [[exNaB]] [?e])" by simp
  have s: "seedFromDNS 7 [[exNaB]] [?e] = [?e, newEntry 7 exNaB]"
    by (simp add: seedFromDNS_def acceptable_ex known_def storeCap_def)
       (simp add: newEntry_def exNaB_def NewNetAddressIPPort_def exA_def exB_def)
  have "\<forall>e\<in>set (seedFromDNS 7 [[exNaB]] [?e]). lastSuccess e = 0 \<longrightarrow> services e = 0"
    using never_succeeded_services_zero [where s = "seedFromDNS 7 [[exNaB]] [?e]"] r2 by blast
  then have "map services (seedFromDNS 7 [[exNaB]] [?e]) = [0, 0]"
    unfolding s by (simp add: newEntry_def)
  then show ?thesis using a r l z r2 by (simp add: NewNetAddressIPPort_def requiredServices_def)
qed

subsection \<open>The idle sleep\<close>





subsection \<open>Startup\<close>

lemma ending_injectSeeder: "ending (injectSeeder env cfg p m) \<noteq> Exit c"
  by (auto simp: injectSeeder_def Let_def split: option.splits prod.splits)

text \<open>
  C7. Startup ends in \<open>os.Exit(1)\<close> exactly when \<open>loadConfig\<close>, \<open>NewManager\<close> or the
  parsing of the default port fails; no other exit code is produced, and the exit is
  preceded by one non-empty line on stderr. When the seeder value is not an IP and the
  host lookup fails, or its first address does not parse, one line is logged, nothing is
  injected, and startup goes on to spawn the crawler and the DNS server.
\<close>

theorem exit_1_iff_init_failure:
  "(ending (main env) = Exit 1 \<longleftrightarrow>
      isl (loadConfig env) \<or> isl (NewManager env) \<or> isl (Atoi env (DefaultPort env)))
   \<and> (\<forall>c. ending (main env) = Exit c \<longrightarrow>
          c = 1 \<and> (\<exists>msg. stderr (main env) = [msg] \<and> msg \<noteq> []))
   \<and> (\<forall>cfg m p. loadConfig env = Inr cfg \<and> NewManager env = Inr m
          \<and> Atoi env (DefaultPort env) = Inr p \<and> Seeder cfg \<noteq> []
          \<and> ParseIP env (Seeder cfg) = None
          \<and> (isl (LookupHost env (Seeder cfg))
              \<or> (\<exists>h hs. LookupHost env (Seeder cfg) = Inr (h # hs) \<and> ParseIP env h = None))
        \<longrightarrow> ending (main env) = Spawned \<and> length (logged (main env)) = 1
            \<and> injected (main env) = [] \<and> amgr (main env) = Some m)"
  by (auto simp: main_def fatal_def newline_def ending_injectSeeder injectSeeder_def seederIP_def
           split: sum.splits option.splits list.splits)

theorem exit_1_iff_init_failure_witness:
  "ending (main (exEnv\<lparr>DefaultPort := ''x''\<rparr>)) = Exit 1
   \<and> stderr (main (exEnv\<lparr>DefaultPort := ''x''\<rparr>))
       = [''Invalid peers default port x: invalid syntax'' @ newline]
   \<and> length (stderr (main (exEnv\<lparr>DefaultPort := ''x''\<rparr>))) = 1
   \<and> ending (main (exEnv\<lparr>LookupHost := (\<lambda>h. Inl ''no such host'')\<rparr>)) = Spawned
   \<and> logged (main (exEnv\<lparr>LookupHost := (\<lambda>h. Inl ''no such host'')\<rparr>))
       = [''Failed to resolve seed host: seed.example, no such host, ignoring'']
   \<and> injected (main (exEnv\<lparr>LookupHost := (\<lambda>h. Inl ''no such host'')\<rparr>)) = []
   \<and> ending (main exEnv) = Spawned"
proof -
  let ?bad = "exEnv\<lparr>DefaultPort := ''x''\<rparr>"
  let ?nohost = "exEnv\<lparr>LookupHost := (\<lambda>h. Inl ''no such host'')\<rparr>"
  have "isl (Atoi ?bad (DefaultPort ?bad))" by (simp add: exEnv_def)
  then have 1: "ending (main ?bad) = Exit 1"
    using exit_1_iff_init_failure [of ?bad] by blast
  have 2: "stderr (main ?bad) = [''Invalid peers default port x: invalid syntax'' @ newline]"
    by (simp add: main_def exEnv_def fatal_def)
  from exit_1_iff_init_failure [of ?bad] 1
  have "\<exists>msg. stderr (main ?bad) = [msg] \<and> msg \<noteq> []" by blast
  then have 5: "length (stderr (main ?bad)) = 1" by auto
  have "loadConfig ?nohost = Inr \<lparr>Seeder = ''seed.example'', Host = ''seed.example.net'',
                        Nameserver = ''ns.example.net'', Listen = '':5354''\<rparr>
        \<and> NewManager ?nohost = Inr [] \<and> Atoi ?nohost (DefaultPort ?nohost) = Inr 16111
        \<and> Seeder \<lparr>Seeder = ''seed.example'', Host = ''seed.example.net'',
                        Nameserver = ''ns.example.net'', Listen = '':5354''\<rparr> \<noteq> []
        \<and> ParseIP ?nohost ''seed.example'' = None
        \<and> isl (LookupHost ?nohost ''seed.example'')"
    by (simp add: exEnv_def)
  then have 3: "ending (main ?nohost) = Spawned \<and> injected (main ?nohost) = []"
    using exit_1_iff_init_failure [of ?nohost] by simp
  have 4: "logged (main ?nohost)
             = [''Failed to resolve seed host: seed.example, no such host, ignoring'']"
    by (simp add: main_def exEnv_def injectSeeder_def seederIP_def)
  have "\<not> (isl (loadConfig exEnv) \<or> isl (NewManager exEnv) \<or> isl (Atoi exEnv (DefaultPort exEnv)))"
    by (simp add: exEnv_def)
  then have "ending (main exEnv) \<noteq> Exit 1" using exit_1_iff_init_failure [of exEnv] by blast
  moreover have "ending (main exEnv) = Spawned \<or> ending (main exEnv) = Exit 1"
    by (simp add: main_def exEnv_def injectSeeder_def seederIP_def)
  ultimately have 6: "ending (main exEnv) = Spawned" by blast
  from 1 2 3 4 5 6 show ?thesis by blast
qed

lemma length_AddAddresses_single:
  "length (snd (AddAddresses now [na] s)) \<le> Suc (length s)"
  by simp

text \<open>
  C8. From the seeder value \<open>main\<close> passes at most one address to the store, in at
  most one \<open>AddAddresses\<close> call: the parsed IP if the value is an IP; otherwise the
  first address of the host lookup, if that parses, whatever further addresses the
  lookup returned. The address carries \<open>uint16(peersDefaultPort)\<close>, which is the default
  port whenever that is a port number, and the flag \<open>SFNodeNetwork\<close>; the store grows
  by at most one entry.
\<close>

theorem seeder_injects_at_most_one:
  "length (concat (injected (main env))) \<le> 1
   \<and> (\<forall>cfg m p. loadConfig env = Inr cfg \<and> NewManager env = Inr m
         \<and> Atoi env (DefaultPort env) = Inr p \<longrightarrow>
       (Seeder cfg = [] \<longrightarrow> injected (main env) = [])
       \<and> (\<forall>a. Seeder cfg \<noteq> [] \<and> ParseIP env (Seeder cfg) = Some a \<longrightarrow>
            injected (main env)
              = [[\<lparr>IP = a, Port = word_of_int p, Services = SFNodeNetwork\<rparr>]])
       \<and> (\<forall>h hs. Seeder cfg \<noteq> [] \<and> ParseIP env (Seeder cfg) = None
            \<and> LookupHost env (Seeder cfg) = Inr (h # hs) \<longrightarrow>
            injected (main env)
              = (case ParseIP env h of
                   None \<Rightarrow> []
                 | Some a \<Rightarrow> [[\<lparr>IP = a, Port = word_of_int p, Services = SFNodeNetwork\<rparr>]]))
       \<and> (0 \<le> p \<and> p < 65536 \<longrightarrow>
            (\<forall>na\<in>set (concat (injected (main env))). uint (Port na) = p))
       \<and> (\<forall>s'. amgr (main env) = Some s' \<longrightarrow> length s' \<le> Suc (length m)))"
  apply (intro conjI allI impI)
  subgoal by (auto simp: main_def fatal_def injectSeeder_def Let_def
           split: sum.splits option.splits list.splits prod.splits)
  subgoal by (auto simp: main_def fatal_def injectSeeder_def Let_def
           split: sum.splits option.splits list.splits prod.splits)
  subgoal by (auto simp: main_def injectSeeder_def seederIP_def NewNetAddressIPPort_def requiredServices_def)
  subgoal by (auto simp: main_def injectSeeder_def seederIP_def NewNetAddressIPPort_def requiredServices_def
       split: option.splits)
  subgoal by (auto simp: main_def injectSeeder_def NewNetAddressIPPort_def Let_def uint_word_of_int
       split: option.splits prod.splits if_splits)
  subgoal by (auto simp: main_def injectSeeder_def Let_def simp del: AddAddresses.simps
       split: option.splits prod.splits if_splits intro: length_AddAddresses_single)
  done

theorem seeder_injects_at_most_one_witness:
  "injected (main exEnv) = [[\<lparr>IP = exA, Port = 16111, Services = SFNodeNetwork\<rparr>]]
   \<and> length (concat (injected (main exEnv))) \<le> 1
   \<and> map (\<lambda>na. uint (Port na)) (concat (injected (main exEnv))) = [16111]
   \<and> injected (main (exEnv\<lparr>loadConfig := Inr \<lparr>Seeder = ''5.6.7.8'', Host = ''seed.example.net'',
                        Nameserver = ''ns.example.net'', Listen = '':5354''\<rparr>\<rparr>))
       = [[\<lparr>IP = exB, Port = 16111, Services = SFNodeNetwork\<rparr>]]"
proof -
  let ?cfg = "\<lparr>Seeder = ''seed.example'', Host = ''seed.example.net'',
                        Nameserver = ''ns.example.net'', Listen = '':5354''\<rparr>"
  let ?cfg2 = "\<lparr>Seeder = ''5.6.7.8'', Host = ''seed.example.net'',
                        Nameserver = ''ns.example.net'', Listen = '':5354''\<rparr>"
  let ?env2 = "exEnv\<lparr>loadConfig := Inr ?cfg2\<rparr>"
  have h: "loadConfig exEnv = Inr ?cfg \<and> NewManager exEnv = Inr []
        \<and> Atoi exEnv (DefaultPort exEnv) = Inr 16111"
    by (simp add: exEnv_def)
  have k: "Seeder ?cfg \<noteq> [] \<and> ParseIP exEnv (Seeder ?cfg) = None
            \<and> LookupHost exEnv (Seeder ?cfg) = Inr (''1.2.3.4'' # [''5.6.7.8''])"
    by (simp add: exEnv_def)
  have p: "ParseIP exEnv ''1.2.3.4'' = Some exA" by (simp add: exEnv_def)
  note t = seeder_injects_at_most_one [of exEnv, THEN conjunct2, rule_format, OF h]
  from t k have "injected (main exEnv)
              = (case ParseIP exEnv ''1.2.3.4'' of
                   None \<Rightarrow> []
                 | Some a \<Rightarrow> [[\<lparr>IP = a, Port = word_of_int 16111, Services = SFNodeNetwork\<rparr>]])"
    by blast
  then have 1: "injected (main exEnv) = [[\<lparr>IP = exA, Port = 16111, Services = SFNodeNetwork\<rparr>]]"
    using p by simp
  have "\<forall>na\<in>set (concat (injected (main exEnv))). uint (Port na) = 16111"
    using t by simp
  then have 2: "map (\<lambda>na. uint (Port na)) (concat (injected (main exEnv))) = [16111]"
    unfolding 1 by simp
  have h2: "loadConfig ?env2 = Inr ?cfg2 \<and> NewManager ?env2 = Inr []
        \<and> Atoi ?env2 (DefaultPort ?env2) = Inr 16111"
    by (simp add: exEnv_def)
  have k2: "Seeder ?cfg2 \<noteq> [] \<and> ParseIP ?env2 (Seeder ?cfg2) = Some exB"
    by (simp add: exEnv_def)
  note t2 = seeder_injects_at_most_one [of ?env2, THEN conjunct2, rule_format, OF h2]
  from t2 k2 have 3: "injected (main ?env2)
              = [[\<lparr>IP = exB, Port = word_of_int 16111, Services = SFNodeNetwork\<rparr>]]"
    by blast
  from 1 2 3 show ?thesis by simp
qed

subsection \<open>The bootstrap\<close>

lemma length_Addresses: "length (snd (Addresses t s)) = length s"
  by (simp add: Addresses_def)

lemma seeded_candidates:
  "fst (candidates env s) = (fst (Addresses (tAddresses env) s) = [] \<and> AddressCount (snd (Addresses (tAddresses env) s)) = 0)"
  by (simp add: candidates_def case_prod_unfold)

lemma seeded_creepIteration:
  "creepIteration env c = Some it \<Longrightarrow> seeded it = fst (candidates env (amgrC c)) \<and> before it = amgrC c"
  by (auto simp: creepIteration_def case_prod_unfold split: if_splits option.splits)

lemma seeded_iteration:
  assumes "creepIteration env c = Some it"
  shows "(seeded it \<longleftrightarrow> fst (Addresses (tAddresses env) (before it)) = []
                      \<and> AddressCount (snd (Addresses (tAddresses env) (before it))) = 0)
         \<and> (seeded it \<longrightarrow> before it = [] \<and> AddressCount (before it) = 0)"
  using seeded_creepIteration [OF assms] seeded_candidates [of env "amgrC c"]
  by (auto simp: AddressCount_def length_Addresses)

lemma creep_seeded:
  "it \<in> set (creep envs c) \<Longrightarrow> seeded it \<Longrightarrow> before it = []"
proof (induction envs arbitrary: c)
  case Nil
  then show ?case by simp
next
  case (Cons env envs)
  show ?case
  proof (cases "creepIteration env c")
    case None
    then show ?thesis using Cons.prems by simp
  next
    case (Some it')
    then have "it = it' \<or> it \<in> set (creep envs (after it'))"
      using Cons.prems(1) by (auto split: if_splits)
    then show ?thesis
      using seeded_iteration [OF Some] Cons.IH Cons.prems(2) by blast
  qed
qed

text \<open>
  C4. An iteration of the crawl loop invokes \<open>SeedFromDNS\<close> exactly when the candidate
  batch is empty and \<open>AddressCount()\<close> returns 0, and then the store has no entry; in
  every iteration that \<open>creep\<close> performs, an invocation of \<open>SeedFromDNS\<close> finds the
  store empty.
\<close>

theorem seed_only_when_store_empty:
  "(creepIteration env c = Some it \<longrightarrow>
      (seeded it \<longleftrightarrow> fst (Addresses (tAddresses env) (amgrC c)) = []
                     \<and> AddressCount (snd (Addresses (tAddresses env) (amgrC c))) = 0)
      \<and> (seeded it \<longrightarrow> amgrC c = [] \<and> AddressCount (amgrC c) = 0))
   \<and> (\<forall>it'\<in>set (creep envs c0). seeded it' \<longrightarrow>
         before it' = [] \<and> AddressCount (before it') = 0)"
proof (intro conjI impI ballI)
  assume a: "creepIteration env c = Some it"
  show "seeded it \<longleftrightarrow> fst (Addresses (tAddresses env) (amgrC c)) = []
                     \<and> AddressCount (snd (Addresses (tAddresses env) (amgrC c))) = 0"
    using seeded_iteration [OF a] seeded_creepIteration [OF a] by simp
next
  assume a: "creepIteration env c = Some it" and s: "seeded it"
  show "amgrC c = []" using seeded_iteration [OF a] seeded_creepIteration [OF a] s by simp
  show "AddressCount (amgrC c) = 0"
    using seeded_iteration [OF a] seeded_creepIteration [OF a] s by simp
next
  fix it' assume "it' \<in> set (creep envs c0)" "seeded it'"
  then show "before it' = []" by (rule creep_seeded)
  then show "AddressCount (before it') = 0" by (simp add: AddressCount_def)
qed

lemmas ex_defs = exNaA_def exNaB_def exStore_def exT_def exVersion_def exBatch_def
  millisecond_def second_def nodeTimeout_def NewNetAddressIPPort_def requiredServices_def
  SFNodeNetwork_def newEntry_def exA_def exB_def storeCap_def
  inFlightTimeout_def attemptInterval_def

lemmas step_defs = step_def doNewOutboundPeer_def doDialTimeout_def
      doVersionArrives_def doAddrArrives_def doSelectRecv_def doSelectTimeout_def emit_def modSlot_def
      spawn_def Let_def Attempt_def Good_def known_def Addresses_def eligible_def toNetAddress_def

lemmas exA_defs = exStoreA_def exBatchA_def ex_defs step_defs

lemma reachable_exStore: "reachable exStore"
proof -
  have "snd (AddAddresses 5 [exNaA, exNaB] []) = exStore"
    by (simp add: acceptable_ex exStore_def known_def storeCap_def)
       (simp add: newEntry_def exNaA_def exNaB_def NewNetAddressIPPort_def exA_def exB_def)
  moreover have "reachable (snd (AddAddresses 5 [exNaA, exNaB] []))"
    by (rule reachable.add [OF reachable.empty]) simp
  ultimately show ?thesis by simp
qed

lemma reachable_exStoreA: "reachable exStoreA"
proof -
  have "snd (AddAddresses 5 [exNaA] []) = exStoreA"
    by (simp add: acceptable_ex exStoreA_def known_def storeCap_def)
  moreover have "reachable (snd (AddAddresses 5 [exNaA] []))"
    by (rule reachable.add [OF reachable.empty]) simp
  ultimately show ?thesis by simp
qed

lemma exBatch_peers:
  "fst (Addresses exT exStore) = [\<lparr>IP = exA, Port = 16111, Services = 0\<rparr>, \<lparr>IP = exB, Port = 16111, Services = 0\<rparr>]"
  by (simp add: ex_defs step_defs)

lemma idleSleep_at_once: "idleSleep (\<lambda>i. True) 0 = (Suc 0, Return)"
  by (subst idleSleep.simps) simp

theorem seed_only_when_store_empty_witness:
  "creepIteration exIdleEnv exEmpty =
     Some \<lparr>before = [], seeded = True, slept = Suc 0, events = [], control = Return,
           after = exEmpty\<rparr>
   \<and> fst (Addresses (tAddresses exIdleEnv) (amgrC exEmpty)) = []
   \<and> AddressCount (snd (Addresses (tAddresses exIdleEnv) (amgrC exEmpty))) = 0
   \<and> map seeded (creep [exIdleEnv] exEmpty) = [True]
   \<and> map before (creep [exIdleEnv] exEmpty) = [[]]"
proof -
  let ?it = "\<lparr>before = [], seeded = True, slept = Suc 0, events = [], control = Return,
           after = exEmpty\<rparr>"
  have 1: "creepIteration exIdleEnv exEmpty = Some ?it"
    by (simp add: creepIteration_def candidates_def exIdleEnv_def exEmpty_def Addresses_def
        AddressCount_def seedFromDNS_def idleSleep_at_once)
  have 2: "seeded ?it" by simp
  from seed_only_when_store_empty [where env = exIdleEnv and c = exEmpty and it = ?it] 1 2
  have 3: "fst (Addresses (tAddresses exIdleEnv) (amgrC exEmpty)) = []
        \<and> AddressCount (snd (Addresses (tAddresses exIdleEnv) (amgrC exEmpty))) = 0"
    by blast
  have c: "creep [exIdleEnv] exEmpty = [?it]" using 1 by simp
  from seed_only_when_store_empty [where envs = "[exIdleEnv]" and ?c0.0 = exEmpty]
  have "\<forall>it'\<in>set (creep [exIdleEnv] exEmpty). seeded it' \<longrightarrow> before it' = []" by blast
  then have 4: "map before (creep [exIdleEnv] exEmpty) = [[]]" unfolding c by simp
  show ?thesis using 1 3 4 c by simp
qed

subsection \<open>The in-flight mark of the store\<close>

lemma map_ip_update:
  "map ip (map (\<lambda>e. if ip e = b then e\<lparr>services := sv, subnetworkID := sid, lastAttempt := la,
                            lastSuccess := ls, inFlight := fl\<rparr> else e) s) = map ip s"
  by (induction s) simp_all

lemma map_ip_Good:
  "map ip (Good now b sv sid s) =
     (if known s b \<or> \<not> length s < storeCap then map ip s else map ip s @ [b])"
  unfolding Good_def using map_ip_update by simp

lemma map_ip_Attempt: "map ip (Attempt now b s) = map ip s"
  unfolding Attempt_def by (induction s) simp_all

lemma map_ip_Addresses: "map ip (snd (Addresses now s)) = map ip s"
  unfolding Addresses_def by (induction s) simp_all

lemma known_set: "known s a = (a \<in> set (map ip s))"
  by (simp add: known_def)

lemma distinct_AddAddresses:
  "distinct (map ip s) \<Longrightarrow> distinct (map ip (snd (AddAddresses now nas s)))"
proof (induction nas arbitrary: s)
  case Nil
  then show ?case by simp
next
  case (Cons na nas)
  show ?case
  proof (cases "acceptable na \<and> \<not> known s (IP na) \<and> length s < storeCap")
    case True
    then have "distinct (map ip (s @ [newEntry now na]))"
      using Cons.prems by (simp add: known_def newEntry_def)
    then show ?thesis using True Cons.IH unfolding snd_AddAddresses_Cons by presburger
  next
    case False
    then show ?thesis using Cons unfolding snd_AddAddresses_Cons by presburger
  qed
qed

lemma reachable_distinct: "reachable s \<Longrightarrow> distinct (map ip s)"
proof (induction rule: reachable.induct)
  case empty
  then show ?case by simp
next
  case (add s now nas)
  then show ?case by (simp add: distinct_AddAddresses)
next
  case (attempt s now a)
  then show ?case by (simp add: map_ip_Attempt)
next
  case (good s now a sv sid)
  then show ?case by (simp add: map_ip_Good known_set)
next
  case (addresses s now)
  then show ?case by (simp add: map_ip_Addresses)
qed

lemma sole_known: "sole a e s \<Longrightarrow> known s a"
  by (auto simp: sole_def known_def)

lemma sole_append: "sole a e s \<Longrightarrow> ip d \<noteq> a \<Longrightarrow> sole a e (s @ [d])"
  by (auto simp: sole_def)

lemma sole_AddAddresses: "sole a e s \<Longrightarrow> sole a e (snd (AddAddresses now nas s))"
proof (induction nas arbitrary: s)
  case Nil
  then show ?case by simp
next
  case (Cons na nas)
  show ?case
  proof (cases "acceptable na \<and> \<not> known s (IP na) \<and> length s < storeCap")
    case True
    then have "IP na \<noteq> a" using Cons.prems sole_known by blast
    then have "sole a e (s @ [newEntry now na])"
      using Cons.prems by (intro sole_append) (simp_all add: newEntry_def)
    then show ?thesis using True Cons.IH unfolding snd_AddAddresses_Cons by presburger
  next
    case False
    then show ?thesis using Cons unfolding snd_AddAddresses_Cons by presburger
  qed
qed

lemma in_map_other:
  "d \<in> set (map (\<lambda>e. if ip e = b then f e else e) s) \<Longrightarrow> ip d \<noteq> b \<Longrightarrow> (\<And>e. ip (f e) = ip e)
   \<Longrightarrow> d \<in> set s"
  by (induction s) (auto split: if_splits)

lemma other_in_map:
  "d \<in> set s \<Longrightarrow> ip d \<noteq> b \<Longrightarrow> d \<in> set (map (\<lambda>e. if ip e = b then f e else e) s)"
  by (induction s) auto

lemma sole_map_other:
  assumes "sole a e s" "a \<noteq> b" "\<And>e. ip (f e) = ip e"
  shows "sole a e (map (\<lambda>e. if ip e = b then f e else e) s)"
proof -
  have 1: "e \<in> set (map (\<lambda>e. if ip e = b then f e else e) s)"
    using assms(1,2) by (intro other_in_map) (auto simp: sole_def)
  have 2: "d = e" if "d \<in> set (map (\<lambda>e. if ip e = b then f e else e) s)" "ip d = a" for d
  proof -
    have "d \<in> set s" using that assms(2,3) by (intro in_map_other [of d b f s]) auto
    then show ?thesis using assms(1) that(2) by (simp add: sole_def)
  qed
  have 3: "ip e = a" using assms(1) by (simp add: sole_def)
  show ?thesis unfolding sole_def using 1 2 3 by blast
qed

lemma sole_Attempt: "sole a e s \<Longrightarrow> a \<noteq> b \<Longrightarrow> sole a e (Attempt now b s)"
  unfolding Attempt_def by (rule sole_map_other) simp_all

lemma sole_Good:
  assumes "sole a e s" "a \<noteq> b"
  shows "sole a e (Good now b sv sid s)"
proof (cases "known s b")
  case True
  have "sole a e (map (\<lambda>e. if ip e = b
                     then e\<lparr>services := sv, subnetworkID := Some sid, lastAttempt := now,
                            lastSuccess := now, inFlight := None\<rparr>
                     else e) s)"
    using assms by (rule sole_map_other) simp
  then show ?thesis using True by (simp add: Good_def)
next
  case False
  have "sole a e (s @ [\<lparr>ip = b, port = 0, services = sv, subnetworkID = Some sid,
                 firstSeen = now, lastAttempt = now, lastSuccess = now, inFlight = None\<rparr>])"
    using assms by (intro sole_append) simp_all
  then show ?thesis using False assms(1) by (simp add: Good_def)
qed

lemma sole_applyCall: "sole a e s \<Longrightarrow> \<not> reports c a \<Longrightarrow> sole a e (applyCall c s)"
  by (cases c) (simp_all add: sole_AddAddresses sole_Attempt sole_Good)

lemma sole_fold:
  "sole a e s \<Longrightarrow> \<forall>c\<in>set cs. \<not> reports c a \<Longrightarrow> sole a e (fold applyCall cs s)"
  by (induction cs arbitrary: s) (simp_all add: sole_applyCall)

lemma sole_Addresses:
  assumes "distinct (map ip s)" "e \<in> set s" "eligible t e"
  shows "sole (ip e) (e\<lparr>inFlight := Some t\<rparr>) (snd (Addresses t s))"
proof -
  let ?mark = "\<lambda>e. if eligible t e then e\<lparr>inFlight := Some t\<rparr> else e"
  have s: "set (snd (Addresses t s)) = ?mark ` set s" by (simp add: Addresses_def)
  have inj: "inj_on ip (set s)" using assms(1) by (simp add: distinct_map)
  have u: "d = e" if "d \<in> set s" "ip d = ip e" for d
    using inj_onD [OF inj that(2) that(1) assms(2)] .
  have "?mark e \<in> ?mark ` set s" using assms(2) by (rule imageI)
  then have m: "e\<lparr>inFlight := Some t\<rparr> \<in> set (snd (Addresses t s))"
    unfolding s using assms(3) by simp
  have k: "d' = e\<lparr>inFlight := Some t\<rparr>" if "d' \<in> set (snd (Addresses t s))" "ip d' = ip e" for d'
  proof -
    from that(1) obtain d where d: "d \<in> set s" "d' = ?mark d" unfolding s by blast
    have "ip (?mark d) = ip d" by simp
    then have "ip d = ip e" using that(2) d(2) by simp
    then have "d = e" using u d(1) by blast
    then show ?thesis using d(2) assms(3) by simp
  qed
  have i: "ip (e\<lparr>inFlight := Some t\<rparr>) = ip e" by simp
  show ?thesis unfolding sole_def using m k i by blast
qed

lemma selected_entry:
  assumes "a \<in> IP ` set (fst (Addresses t s))"
  obtains e where "e \<in> set s" "eligible t e" "ip e = a"
proof -
  from assms obtain na where na: "na \<in> set (fst (Addresses t s))" "IP na = a" by blast
  then obtain e where "e \<in> set (filter (eligible t) s)" "na = toNetAddress e"
    by (auto simp: Addresses_def)
  then have "e \<in> set s" "eligible t e" "ip e = a" using na(2) by (simp_all add: toNetAddress_def)
  then show ?thesis by (rule that)
qed

lemma returned_iff:
  assumes "sole a e s"
  shows "a \<in> IP ` set (fst (Addresses t s)) \<longleftrightarrow> eligible t e"
proof
  assume "a \<in> IP ` set (fst (Addresses t s))"
  then obtain d where d: "d \<in> set s" "eligible t d" "ip d = a"
    by (rule selected_entry)
  then have "d = e" using assms unfolding sole_def by blast
  then show "eligible t e" using d(2) by simp
next
  assume "eligible t e"
  moreover have "e \<in> set s" using assms by (simp add: sole_def)
  ultimately have "toNetAddress e \<in> set (fst (Addresses t s))"
    by (simp add: Addresses_def)
  then have "IP (toNetAddress e) \<in> IP ` set (fst (Addresses t s))" by (rule imageI)
  moreover have "IP (toNetAddress e) = a" using assms by (simp add: toNetAddress_def sole_def)
  ultimately show "a \<in> IP ` set (fst (Addresses t s))" by simp
qed

lemma in_flight_until:
  assumes "distinct (map ip s0)"
    and "a \<in> IP ` set (fst (Addresses t1 s0))"
    and "\<forall>c\<in>set cs. \<not> reports c a"
    and "t1 \<le> t2"
  shows "a \<in> IP ` set (fst (Addresses t2 (fold applyCall cs (snd (Addresses t1 s0)))))
         \<longleftrightarrow> t1 + inFlightTimeout \<le> t2"
proof -
  from assms(2) obtain e where e: "e \<in> set s0" "eligible t1 e" "ip e = a"
    by (rule selected_entry)
  let ?e = "e\<lparr>inFlight := Some t1\<rparr>"
  have "sole a ?e (snd (Addresses t1 s0))"
    using sole_Addresses [OF assms(1) e(1,2)] e(3) by simp
  then have "sole a ?e (fold applyCall cs (snd (Addresses t1 s0)))"
    using assms(3) by (rule sole_fold)
  then have "a \<in> IP ` set (fst (Addresses t2 (fold applyCall cs (snd (Addresses t1 s0)))))
             \<longleftrightarrow> eligible t2 ?e" by (rule returned_iff)
  moreover have "lastAttempt e = 0 \<or> lastAttempt e + attemptInterval \<le> t2"
    using e(2) assms(4) by (auto simp: eligible_def)
  then have "eligible t2 ?e \<longleftrightarrow> t1 + inFlightTimeout \<le> t2"
    by (simp add: eligible_def)
  ultimately show ?thesis by simp
qed

text \<open>
  C2. Let an address be in the batch returned by \<open>Addresses()\<close> at time \<open>t1\<close>, on a
  reachable store. After any calls on the store that do not report on that address by
  \<open>Attempt\<close> or \<open>Good\<close>, a second \<open>Addresses()\<close> at a time \<open>t2\<close> within the 60-second
  in-flight timeout does not return the address.
\<close>

theorem in_flight_not_returned_again:
  assumes "reachable s0"
    and "a \<in> IP ` set (fst (Addresses t1 s0))"
    and "\<forall>c\<in>set cs. \<not> reports c a"
    and "t1 \<le> t2" and "t2 < t1 + inFlightTimeout"
  shows "a \<notin> IP ` set (fst (Addresses t2 (fold applyCall cs (snd (Addresses t1 s0)))))"
  using in_flight_until [OF reachable_distinct [OF assms(1)] assms(2,3,4)] assms(5) by simp

theorem in_flight_not_returned_again_witness:
  "reachable exStore
   \<and> exA \<in> IP ` set (fst (Addresses exT exStore))
   \<and> exA \<notin> IP ` set (fst (Addresses (exT + 2 * second)
                 (fold applyCall [CallAttempt (exT + second) exB] (snd (Addresses exT exStore)))))"
proof -
  have 1: "exA \<in> IP ` set (fst (Addresses exT exStore))"
    by (simp add: exBatch_peers)
  have 2: "\<forall>c\<in>set [CallAttempt (exT + second) exB]. \<not> reports c exA"
    by (simp add: exA_def exB_def)
  have 3: "exT \<le> exT + 2 * second" "exT + 2 * second < exT + inFlightTimeout"
    by (simp_all add: inFlightTimeout_def second_def)
  from in_flight_not_returned_again [OF reachable_exStore 1 2 3] reachable_exStore 1 show ?thesis by blast
qed

subsection \<open>Steps of a batch\<close>

lemma emit_simps [simp]:
  "trace (emit es st) = trace st @ es" "slots (emit es st) = slots st"
  "store (emit es st) = store st" "onVersion (emit es st) = onVersion st"
  "onAddr (emit es st) = onAddr st" "wall (emit es st) = wall st"
  by (simp_all add: emit_def)

lemma modSlot_simps [simp]:
  "trace (modSlot w f st) = trace st"
  "slots (modSlot w f st) = (slots st)[w := f (slots st ! w)]"
  "store (modSlot w f st) = store st" "onVersion (modSlot w f st) = onVersion st"
  "onAddr (modSlot w f st) = onAddr st" "wall (modSlot w f st) = wall st"
  by (simp_all add: modSlot_def)

lemma resume_simps [simp]:
  "trace (resume x st) = trace st" "store (resume x st) = store st"
  "onVersion (resume x st) = onVersion st" "onAddr (resume x st) = onAddr st"
  "wall (resume x st) = wall st" "length (slots (resume x st)) = length (slots st)"
  by (cases x, simp, simp)+

lemma resume_slot [simp]:
  "addr (slots (resume x st) ! w) = addr (slots st ! w)"
  "worker (slots (resume x st) ! w) = worker (slots st ! w)"
  "conn (slots (resume x st) ! w) = conn (slots st ! w)"
proof -
  have "addr (slots (resume x st) ! w) = addr (slots st ! w)
      \<and> worker (slots (resume x st) ! w) = worker (slots st ! w)
      \<and> conn (slots (resume x st) ! w) = conn (slots st ! w)"
  proof (cases x)
    case None
    then show ?thesis by simp
  next
    case (Some v)
    show ?thesis
    proof (cases "v = w \<and> w < length (slots st)")
      case True
      then show ?thesis using Some by simp
    next
      case False
      then have "(slots st)[v := (slots st ! v)\<lparr>listener := AwaitAddr\<rparr>] ! w = slots st ! w"
        by (metis nth_list_update_neq list_update_beyond linorder_not_less)
      then show ?thesis using Some by simp
    qed
  qed
  then show "addr (slots (resume x st) ! w) = addr (slots st ! w)"
    "worker (slots (resume x st) ! w) = worker (slots st ! w)"
    "conn (slots (resume x st) ! w) = conn (slots st ! w)" by blast+
qed

lemma nth_update_field:
  "f ((xs[v := y]) ! w) = (if w = v \<and> v < length xs then f y else f (xs ! w))"
  by (cases "w = v") (simp_all add: list_update_beyond linorder_not_less)

lemma frame_NewOutboundPeer:
  "doNewOutboundPeer t v r st = Some st' \<Longrightarrow> frame v st st'"
  by (cases r)
     (auto simp: doNewOutboundPeer_def frame_def Let_def nth_update_field split: if_splits)

lemma frame_DialTimeout:
  "doDialTimeout t v r st = Some st' \<Longrightarrow> frame v st st'"
  by (cases r)
     (auto simp: doDialTimeout_def frame_def nth_update_field split: Worker.splits if_splits)

lemma frame_VersionArrives:
  "doVersionArrives t v msg st = Some st' \<Longrightarrow> frame v st st'"
  by (auto simp: doVersionArrives_def frame_def Let_def nth_update_field split: if_splits)

lemma frame_AddrArrives:
  "doAddrArrives t v l st = Some st' \<Longrightarrow> frame v st st'"
  by (auto simp: doAddrArrives_def frame_def Let_def nth_update_field split: if_splits prod.splits)

lemma frame_SelectRecv:
  "doSelectRecv t v st = Some st' \<Longrightarrow> frame v st st'"
  by (auto simp: doSelectRecv_def frame_def nth_update_field split: Worker.splits list.splits)

lemma frame_SelectTimeout:
  "doSelectTimeout t v st = Some st' \<Longrightarrow> frame v st st'"
  by (auto simp: doSelectTimeout_def frame_def nth_update_field split: Worker.splits if_splits)

lemma frame_wall: "frame v (st\<lparr>wall := t\<rparr>) st' = frame v st st'"
  by (simp add: frame_def)

lemma frame_step: "step ta st = Some st' \<Longrightarrow> frame (actor (snd ta)) st st'"
  unfolding step_def
  by (cases "snd ta")
     (auto simp: frame_wall split: if_splits
           dest: frame_NewOutboundPeer frame_DialTimeout frame_VersionArrives
                 frame_AddrArrives frame_SelectRecv frame_SelectTimeout)

lemma step_length: "step ta st = Some st' \<Longrightarrow> length (slots st') = length (slots st)"
  using frame_step [of ta st st'] by (simp add: frame_def)

lemma step_addr: "step ta st = Some st' \<Longrightarrow> addr (slots st' ! w) = addr (slots st ! w)"
  using frame_step [of ta st st'] by (simp add: frame_def)



subsection \<open>The order of the calls of a worker\<close>

lemma precedes_append:
  "precedes a b (xs @ ys) = (if a \<in> set xs \<or> b \<in> set xs then precedes a b xs else precedes a b ys)"
  by (induction xs) auto

lemma precedes_absent: "b \<notin> set ys \<Longrightarrow> precedes a b ys"
  by (induction ys) auto

lemma precedes_extend: "precedes a b xs \<Longrightarrow> b \<notin> set ys \<Longrightarrow> precedes a b (xs @ ys)"
  by (simp add: precedes_append precedes_absent)

lemma precedes_after: "precedes a b xs \<Longrightarrow> a \<in> set xs \<Longrightarrow> precedes a b (xs @ ys)"
  by (simp add: precedes_append)

lemma precedes_trans: "precedes a b tr \<Longrightarrow> precedes b c tr \<Longrightarrow> b \<noteq> c \<Longrightarrow> precedes a c tr"
  by (induction tr) (auto split: if_splits)

text \<open>What \<open>precedes\<close> says, by positions in the trace.\<close>

lemma precedes_nth:
  "a \<noteq> b \<Longrightarrow> precedes a b tr = (\<forall>j<length tr. tr ! j = b \<longrightarrow> (\<exists>i<j. tr ! i = a))"
proof (induction tr)
  case Nil
  then show ?case by simp
next
  case (Cons e es)
  show ?case
  proof (cases "e = a")
    case True
    then show ?thesis using Cons.prems
      by (auto simp: nth_Cons split: nat.splits)
  next
    case False
    show ?thesis
    proof (cases "e = b")
      case True
      then show ?thesis using False by auto
    next
      case nb: False
      have "(\<forall>j<length (e # es). (e # es) ! j = b \<longrightarrow> (\<exists>i<j. (e # es) ! i = a))
            = (\<forall>j<length es. es ! j = b \<longrightarrow> (\<exists>i<j. es ! i = a))" (is "?L = ?R")
      proof
        assume l: ?L
        show ?R
        proof (intro allI impI)
          fix j assume j: "j < length es" "es ! j = b"
          then obtain i where "i < Suc j" "(e # es) ! i = a" using l [rule_format, of "Suc j"] by auto
          then show "\<exists>i<j. es ! i = a" using False by (cases i) auto
        qed
      next
        assume r: ?R
        show ?L
        proof (intro allI impI)
          fix j assume j: "j < length (e # es)" "(e # es) ! j = b"
          then obtain j' where j': "j = Suc j'" using nb by (cases j) auto
          then obtain i where "i < j'" "es ! i = a" using r j by auto
          then have "Suc i < j \<and> (e # es) ! Suc i = a" using j' by simp
          then show "\<exists>i<j. (e # es) ! i = a" by blast
        qed
      qed
      then show ?thesis using False nb Cons by simp
    qed
  qed
qed

lemma goodAt_other: "owner e \<noteq> w \<Longrightarrow> goodAt w a e"
  by (cases e) auto

lemma ordered_extend:
  "ordered w a tr \<Longrightarrow> \<forall>e\<in>set es. owner e \<noteq> w \<Longrightarrow> ordered w a (tr @ es)"
proof -
  assume o: "ordered w a tr" and es: "\<forall>e\<in>set es. owner e \<noteq> w"
  have 1: "EvDial w \<notin> set es" "EvAssociate w \<notin> set es" "\<And>a' sv sid. EvGood w a' sv sid \<notin> set es"
    using es by force+
  have "list_all (goodAt w a) es" using es by (simp add: list_all_iff goodAt_other)
  then show ?thesis using o 1 by (simp add: ordered_def precedes_extend)
qed

lemma orderInv_other:
  assumes "frame v st st'" "v \<noteq> w" "orderInv w st"
  shows "orderInv w st'"
proof -
  from assms(1) obtain es where es: "trace st' = trace st @ es" "\<forall>e\<in>set es. owner e = v"
    and a: "addr (slots st' ! w) = addr (slots st ! w)"
    and k: "worker (slots st' ! w) = worker (slots st ! w)" "conn (slots st' ! w) = conn (slots st ! w)"
    using assms(2) unfolding frame_def by (elim conjE exE) simp
  have "ordered w (IP (addr (slots st ! w))) (trace st @ es)"
    using assms(2,3) es(2) by (intro ordered_extend) (auto simp: orderInv_def)
  then show ?thesis using assms(3) by (auto simp: orderInv_def es(1) a k)
qed

lemma orderInv_wall [simp]: "orderInv w (st\<lparr>wall := t\<rparr>) = orderInv w st"
  by (simp add: orderInv_def)

lemma orderInv_own_NewOutboundPeer:
  "doNewOutboundPeer t w r st = Some st' \<Longrightarrow> w < length (slots st) \<Longrightarrow> orderInv w st \<Longrightarrow> orderInv w st'"
  by (cases r)
     (auto simp: doNewOutboundPeer_def orderInv_def ordered_def Let_def precedes_append precedes_absent
           split: if_splits)

lemma orderInv_own_DialTimeout:
  "doDialTimeout t w r st = Some st' \<Longrightarrow> w < length (slots st) \<Longrightarrow> orderInv w st \<Longrightarrow> orderInv w st'"
  by (cases r)
     (auto simp: doDialTimeout_def orderInv_def ordered_def precedes_append precedes_absent
           split: Worker.splits if_splits)

lemma orderInv_own_VersionArrives:
  "doVersionArrives t w msg st = Some st' \<Longrightarrow> w < length (slots st) \<Longrightarrow> orderInv w st \<Longrightarrow> orderInv w st'"
  by (auto simp: doVersionArrives_def orderInv_def ordered_def Let_def precedes_append precedes_absent
           split: if_splits)

lemma orderInv_own_AddrArrives:
  "doAddrArrives t w l st = Some st' \<Longrightarrow> w < length (slots st) \<Longrightarrow> orderInv w st \<Longrightarrow> orderInv w st'"
  by (auto simp: doAddrArrives_def orderInv_def ordered_def Let_def precedes_append precedes_absent
           split: if_splits prod.splits)

lemma orderInv_own_SelectRecv:
  "doSelectRecv t w st = Some st' \<Longrightarrow> w < length (slots st) \<Longrightarrow> orderInv w st \<Longrightarrow> orderInv w st'"
  by (auto simp: doSelectRecv_def orderInv_def ordered_def precedes_append precedes_absent
           split: Worker.splits list.splits)

lemma orderInv_own_SelectTimeout:
  "doSelectTimeout t w st = Some st' \<Longrightarrow> w < length (slots st) \<Longrightarrow> orderInv w st \<Longrightarrow> orderInv w st'"
  by (auto simp: doSelectTimeout_def orderInv_def ordered_def precedes_append precedes_absent
           split: Worker.splits if_splits)

lemma orderInv_step:
  assumes "step ta st = Some st'" "w < length (slots st)" "orderInv w st"
  shows "orderInv w st'"
proof (cases "actor (snd ta) = w")
  case True
  then show ?thesis using assms unfolding step_def
    by (cases "snd ta")
       (auto split: if_splits
             dest: orderInv_own_NewOutboundPeer [of "fst ta" w _ "st\<lparr>wall := fst ta\<rparr>", simplified]
                   orderInv_own_DialTimeout [of "fst ta" w _ "st\<lparr>wall := fst ta\<rparr>", simplified]
                   orderInv_own_VersionArrives [of "fst ta" w _ "st\<lparr>wall := fst ta\<rparr>", simplified]
                   orderInv_own_AddrArrives [of "fst ta" w _ "st\<lparr>wall := fst ta\<rparr>", simplified]
                   orderInv_own_SelectRecv [of "fst ta" w "st\<lparr>wall := fst ta\<rparr>", simplified]
                   orderInv_own_SelectTimeout [of "fst ta" w "st\<lparr>wall := fst ta\<rparr>", simplified])
next
  case False
  then show ?thesis using orderInv_other [OF frame_step [OF assms(1)] _ assms(3)] by blast
qed

lemma orderInv_run:
  "run tas st = Some st' \<Longrightarrow> w < length (slots st) \<Longrightarrow> orderInv w st \<Longrightarrow>
   orderInv w st' \<and> addr (slots st' ! w) = addr (slots st ! w)"
proof (induction tas arbitrary: st)
  case Nil
  then show ?case by simp
next
  case (Cons ta tas)
  then obtain st1 where s: "step ta st = Some st1" "run tas st1 = Some st'"
    by (auto split: option.splits)
  have "orderInv w st1" using orderInv_step [OF s(1) Cons.prems(2,3)] .
  moreover have "w < length (slots st1)" using step_length [OF s(1)] Cons.prems(2) by simp
  ultimately have "orderInv w st' \<and> addr (slots st' ! w) = addr (slots st1 ! w)"
    using Cons.IH [OF s(2)] by blast
  then show ?case using step_addr [OF s(1)] by simp
qed

lemma orderInv_spawn: "w < length peers \<Longrightarrow> orderInv w (spawn t peers pv pa s)"
  by (simp add: orderInv_def spawn_def ordered_def)

text \<open>
  C5. In every run of a batch, for every worker \<open>w\<close> and its address: \<open>Attempt\<close> is
  called before the dial begins, the dial begins before the connection is associated
  with the peer, and every \<open>Good\<close> call of the listener of that peer is for the
  address of the worker and comes after the association, hence after the \<open>Attempt\<close>
  call of the worker.
\<close>

theorem attempt_precedes_good:
  assumes "run tas (spawn t peers pv pa s) = Some st" and "w < length peers"
  shows "precedes (EvAttempt w (IP (peers ! w))) (EvDial w) (trace st)
       \<and> precedes (EvDial w) (EvAssociate w) (trace st)
       \<and> (\<forall>a sv sid. EvGood w a sv sid \<in> set (trace st) \<longrightarrow>
            a = IP (peers ! w)
            \<and> precedes (EvAssociate w) (EvGood w a sv sid) (trace st)
            \<and> precedes (EvAttempt w a) (EvGood w a sv sid) (trace st))"
proof -
  have w: "w < length (slots (spawn t peers pv pa s))" using assms(2) by (simp add: spawn_def)
  have "addr (slots (spawn t peers pv pa s) ! w) = peers ! w" using assms(2) by (simp add: spawn_def)
  then have i: "orderInv w st" and a: "addr (slots st ! w) = peers ! w"
    using orderInv_run [OF assms(1) w orderInv_spawn [OF assms(2)]] by simp_all
  then have o: "ordered w (IP (peers ! w)) (trace st)" by (simp add: orderInv_def)
  have g: "a = IP (peers ! w)" if "EvGood w a sv sid \<in> set (trace st)" for a sv sid
    using o that by (auto simp: ordered_def list_all_iff)
  have t: "precedes (EvAttempt w (IP (peers ! w))) (EvGood w a sv sid) (trace st)" for a sv sid
  proof -
    have "precedes (EvAttempt w (IP (peers ! w))) (EvAssociate w) (trace st)"
      using o by (auto simp: ordered_def intro: precedes_trans)
    moreover have "precedes (EvAssociate w) (EvGood w a sv sid) (trace st)"
      using o by (simp add: ordered_def)
    ultimately show ?thesis by (rule precedes_trans) simp
  qed
  show ?thesis using o g t by (auto simp: ordered_def)
qed

lemma exHappy_trace:
  "map_option trace (run exHappy exBatchA) =
     Some [EvAttempt 0 exA, EvDial 0, EvAssociate 0,
           EvLog (LogAddingPeer 0 SFNodeNetwork SupportsAll),
           EvGood 0 exA SFNodeNetwork SupportsAll, EvQueueGetAddr 0,
           EvAddAddresses 0 [exNaB], EvLog (LogPeerSent 0 1 1), EvDisconnect 0]"
  by (simp add: exHappy_def exA_defs acceptable_ex)
     (simp add: acceptable_def ex_defs isV4_def v4prefix_def unspecified6_def loopback6_def known_def)

theorem attempt_precedes_good_witness:
  "run exHappy exBatchA \<noteq> None
   \<and> EvGood 0 exA SFNodeNetwork SupportsAll \<in> set (trace (the (run exHappy exBatchA)))
   \<and> precedes (EvAttempt 0 exA) (EvGood 0 exA SFNodeNetwork SupportsAll)
        (trace (the (run exHappy exBatchA)))
   \<and> precedes (EvAssociate 0) (EvGood 0 exA SFNodeNetwork SupportsAll)
        (trace (the (run exHappy exBatchA)))"
proof -
  from exHappy_trace obtain st where st: "run exHappy exBatchA = Some st"
    and tr: "trace st = [EvAttempt 0 exA, EvDial 0, EvAssociate 0,
           EvLog (LogAddingPeer 0 SFNodeNetwork SupportsAll),
           EvGood 0 exA SFNodeNetwork SupportsAll, EvQueueGetAddr 0,
           EvAddAddresses 0 [exNaB], EvLog (LogPeerSent 0 1 1), EvDisconnect 0]"
    by blast
  have g: "EvGood 0 exA SFNodeNetwork SupportsAll \<in> set (trace st)" by (simp add: tr)
  have r: "run exHappy (spawn exT (fst (Addresses exT exStoreA)) 0 0 (snd (Addresses exT exStoreA)))
            = Some st"
    using st by (simp add: exBatchA_def)
  have l: "0 < length (fst (Addresses exT exStoreA))" by (simp add: exA_defs)
  from attempt_precedes_good [OF r l] g
  have "precedes (EvAssociate 0) (EvGood 0 exA SFNodeNetwork SupportsAll) (trace st)
      \<and> precedes (EvAttempt 0 exA) (EvGood 0 exA SFNodeNetwork SupportsAll) (trace st)"
    by blast
  then show ?thesis using st g by simp
qed

subsection \<open>A worker whose peer cannot be constructed\<close>

lemma wevents_append [simp]: "wevents w (xs @ ys) = wevents w xs @ wevents w ys"
  by (simp add: wevents_def)





















subsection \<open>The timeout of the address wait\<close>

lemma Good_records:
  assumes "known s a" "e \<in> set (Good t a sv sid s)" "ip e = a"
  shows "lastSuccess e = t \<and> services e = sv \<and> subnetworkID e = Some sid"
proof -
  let ?f = "\<lambda>e. if ip e = a
                     then e\<lparr>services := sv, subnetworkID := Some sid, lastAttempt := t,
                            lastSuccess := t, inFlight := None\<rparr>
                     else e"
  have "e \<in> ?f ` set s" using assms(1,2) by (simp add: Good_def)
  then obtain d where "d \<in> set s" "e = ?f d" by blast
  then show ?thesis using assms(3) by (cases "ip d = a") simp_all
qed

text \<open>
  C10. When the second \<open>select\<close> of a worker times out, the step leaves the store
  unchanged: the worker logs, disconnects and returns. When the version message of
  the peer arrives, its worker receives the signal and the address wait then times
  out, the store is the one that \<open>Good\<close> left, and the entry of the address carries
  \<open>lastSuccess\<close>, \<open>services\<close> and \<open>subnetworkID\<close> as recorded at the arrival of the
  version message.
\<close>

theorem getaddr_timeout_keeps_classification:
  "(w < length (slots st) \<and> worker (slots st ! w) = WaitAddr t0 \<and> wall st \<le> t
      \<and> t0 + nodeTimeout \<le> t \<longrightarrow>
      (\<exists>st'. step (t, SelectTimeout w) st = Some st'
            \<and> store st' = store st
            \<and> trace st' = trace st @ [EvLog (LogGetaddrTimeout w), EvDisconnect w]
            \<and> worker (slots st' ! w) = Finished))
   \<and> (worker (slots st ! w) = WaitVersion t0
      \<and> run [(tv, VersionArrives w msg), (tr, SelectRecv w), (tt, SelectTimeout w)] st = Some st''
      \<and> known (store st) (IP (addr (slots st ! w))) \<longrightarrow>
      store st'' = Good tv (IP (addr (slots st ! w))) (msgServices msg) (msgSubnetworkID msg) (store st)
      \<and> trace st'' = trace st @ [EvLog (LogAddingPeer w (msgServices msg) (msgSubnetworkID msg)),
                                 EvGood w (IP (addr (slots st ! w))) (msgServices msg) (msgSubnetworkID msg),
                                 EvQueueGetAddr w, EvLog (LogGetaddrTimeout w), EvDisconnect w]
      \<and> (\<forall>e\<in>set (store st''). ip e = IP (addr (slots st ! w)) \<longrightarrow>
            lastSuccess e = tv \<and> services e = msgServices msg
            \<and> subnetworkID e = Some (msgSubnetworkID msg)))"
proof (intro conjI impI)
  assume "w < length (slots st) \<and> worker (slots st ! w) = WaitAddr t0 \<and> wall st \<le> t
      \<and> t0 + nodeTimeout \<le> t"
  then show "\<exists>st'. step (t, SelectTimeout w) st = Some st'
            \<and> store st' = store st
            \<and> trace st' = trace st @ [EvLog (LogGetaddrTimeout w), EvDisconnect w]
            \<and> worker (slots st' ! w) = Finished"
    by (simp add: step_def doSelectTimeout_def)
next
  assume a: "worker (slots st ! w) = WaitVersion t0
      \<and> run [(tv, VersionArrives w msg), (tr, SelectRecv w), (tt, SelectTimeout w)] st = Some st''
      \<and> known (store st) (IP (addr (slots st ! w)))"
  let ?a = "IP (addr (slots st ! w))"
  from a obtain st1 st2 where
    1: "step (tv, VersionArrives w msg) st = Some st1" and
    2: "step (tr, SelectRecv w) st1 = Some st2" and
    3: "step (tt, SelectTimeout w) st2 = Some st''"
    by (auto split: option.splits)
  have w: "w < length (slots st)" using 1 by (simp add: step_def split: if_splits)
  have s1: "store st1 = Good tv ?a (msgServices msg) (msgSubnetworkID msg) (store st)"
    "trace st1 = trace st @ [EvLog (LogAddingPeer w (msgServices msg) (msgSubnetworkID msg)),
                                 EvGood w ?a (msgServices msg) (msgSubnetworkID msg),
                                 EvQueueGetAddr w]"
    "worker (slots st1 ! w) = WaitVersion t0" "length (slots st1) = length (slots st)"
    using 1 a w by (auto simp: step_def doVersionArrives_def Let_def split: if_splits)
  have s2: "store st2 = store st1" "trace st2 = trace st1" "worker (slots st2 ! w) = WaitAddr tr"
    using 2 s1(3,4) w
    by (auto simp: step_def doSelectRecv_def split: if_splits list.splits)
  have s3: "store st'' = store st2"
    "trace st'' = trace st2 @ [EvLog (LogGetaddrTimeout w), EvDisconnect w]"
    using 3 s2(3) by (auto simp: step_def doSelectTimeout_def split: if_splits)
  show "store st'' = Good tv ?a (msgServices msg) (msgSubnetworkID msg) (store st)"
    using s1 s2 s3 by simp
  show "trace st'' = trace st @ [EvLog (LogAddingPeer w (msgServices msg) (msgSubnetworkID msg)),
                                 EvGood w ?a (msgServices msg) (msgSubnetworkID msg),
                                 EvQueueGetAddr w, EvLog (LogGetaddrTimeout w), EvDisconnect w]"
    using s1 s2 s3 by simp
  show "\<forall>e\<in>set (store st''). ip e = ?a \<longrightarrow>
            lastSuccess e = tv \<and> services e = msgServices msg
            \<and> subnetworkID e = Some (msgSubnetworkID msg)"
    using Good_records a s1(1) s2(1) s3(1) by metis
qed

lemma exWaiting_facts:
  "0 < length (slots exWaiting)"
  "worker (slots exWaiting ! 0) = WaitVersion (exT + 100 * millisecond)"
  "addr (slots exWaiting ! 0) = \<lparr>IP = exA, Port = 16111, Services = 0\<rparr>"
  "known (store exWaiting) exA"
  "trace exWaiting = [EvAttempt 0 exA, EvDial 0, EvAssociate 0]"
  by (simp_all add: exWaiting_def exHappy_def exA_defs)

lemma exWaiting_timeout:
  "run [(exT + 200 * millisecond, VersionArrives 0 exVersion),
        (exT + 200 * millisecond, SelectRecv 0),
        (exT + 3200 * millisecond, SelectTimeout 0)] exWaiting \<noteq> None"
  by (simp add: exWaiting_def exHappy_def exA_defs)

theorem getaddr_timeout_keeps_classification_witness:
  "worker (slots exWaiting ! 0) = WaitVersion (exT + 100 * millisecond)
   \<and> known (store exWaiting) exA
   \<and> map_option (\<lambda>st. map (\<lambda>e. (lastSuccess e, services e, subnetworkID e)) (store st))
        (run [(exT + 200 * millisecond, VersionArrives 0 exVersion),
              (exT + 200 * millisecond, SelectRecv 0),
              (exT + 3200 * millisecond, SelectTimeout 0)] exWaiting)
       = Some [(exT + 200 * millisecond, SFNodeNetwork, Some SupportsAll)]
   \<and> map_option store
        (run [(exT + 200 * millisecond, VersionArrives 0 exVersion),
              (exT + 200 * millisecond, SelectRecv 0),
              (exT + 3200 * millisecond, SelectTimeout 0)] exWaiting)
       = map_option store
        (run [(exT + 200 * millisecond, VersionArrives 0 exVersion),
              (exT + 200 * millisecond, SelectRecv 0)] exWaiting)"
proof -
  let ?two = "[(exT + 200 * millisecond, VersionArrives 0 exVersion),
              (exT + 200 * millisecond, SelectRecv 0)]"
  let ?tas = "[(exT + 200 * millisecond, VersionArrives 0 exVersion),
              (exT + 200 * millisecond, SelectRecv 0),
              (exT + 3200 * millisecond, SelectTimeout 0)]"
  from exWaiting_timeout obtain st'' where r: "run ?tas exWaiting = Some st''" by blast
  have k: "known (store exWaiting) (IP (addr (slots exWaiting ! 0)))"
    using exWaiting_facts(3,4) by simp
  from getaddr_timeout_keeps_classification [where w = 0 and st = exWaiting and tv = "exT + 200 * millisecond" and msg = exVersion
               and tr = "exT + 200 * millisecond" and tt = "exT + 3200 * millisecond"
               and st'' = st'' and ?t0.0 = "exT + 100 * millisecond"]
       exWaiting_facts(2) r k
  have "store st'' = Good (exT + 200 * millisecond) (IP (addr (slots exWaiting ! 0)))
                       (msgServices exVersion) (msgSubnetworkID exVersion) (store exWaiting)"
    by blast
  then have 1: "map (\<lambda>e. (lastSuccess e, services e, subnetworkID e)) (store st'')
             = [(exT + 200 * millisecond, SFNodeNetwork, Some SupportsAll)]"
    by (simp add: exWaiting_def exHappy_def exA_defs)
  have "run ?two exWaiting \<noteq> None" using r by (auto split: option.splits)
  then obtain st2 where r2: "run ?two exWaiting = Some st2" by blast
  have w2: "0 < length (slots st2) \<and> worker (slots st2 ! 0) = WaitAddr (exT + 200 * millisecond)
            \<and> wall st2 \<le> exT + 3200 * millisecond
            \<and> exT + 200 * millisecond + nodeTimeout \<le> exT + 3200 * millisecond"
    using r2 by (simp add: exWaiting_def exHappy_def exA_defs split: if_splits) auto
  from getaddr_timeout_keeps_classification [where w = 0 and st = st2 and ?t0.0 = "exT + 200 * millisecond"
        and t = "exT + 3200 * millisecond"] w2
  obtain st3 where s3: "step (exT + 3200 * millisecond, SelectTimeout 0) st2 = Some st3"
     "store st3 = store st2" by blast
  have "run ?tas exWaiting = run [(exT + 3200 * millisecond, SelectTimeout 0)] st2"
    using r2 by (auto split: option.splits)
  then have "run ?tas exWaiting = Some st3" using s3(1) by simp
  then have 2: "map_option store (run ?tas exWaiting) = map_option store (run ?two exWaiting)"
    using r2 s3(2) by simp
  show ?thesis using 1 2 r exWaiting_facts(2,4) by simp
qed

subsection \<open>Workers on shared channels\<close>

text \<open>
  C1 (\<open>Good\<close> is called exactly when the worker receives the version message of its
  peer within 3 seconds; a version timeout leaves the address unmarked) does not hold
  for workers that share the two channels. In this run of two workers the listener of
  the second peer calls \<open>Good\<close> for its address 2.8 s after the connection, but its
  signal on \<open>onVersion\<close> is received by the first worker, so the second worker takes
  the version-timeout branch although its address has been marked good. The first
  worker passes its version wait without a version message from its peer; that
  message arrives 4.9 s after the connection, while the worker waits for addresses,
  and the listener then calls \<open>Good\<close> for the first address and stays blocked on
  \<open>onVersion\<close>.
\<close>

theorem shared_channels_crosstalk:
  "map_option trace (run exCrosstalk exBatch) =
     Some [EvAttempt 0 exA, EvDial 0, EvAttempt 1 exB, EvDial 1, EvAssociate 0, EvAssociate 1,
           EvLog (LogAddingPeer 1 SFNodeNetwork SupportsAll),
           EvGood 1 exB SFNodeNetwork SupportsAll, EvQueueGetAddr 1,
           EvLog (LogVersionTimeout 1), EvDisconnect 1,
           EvLog (LogAddingPeer 0 SFNodeNetwork SupportsAll),
           EvGood 0 exA SFNodeNetwork SupportsAll, EvQueueGetAddr 0,
           EvLog (LogGetaddrTimeout 0), EvDisconnect 0]
   \<and> map_option (\<lambda>st. map lastSuccess (store st)) (run exCrosstalk exBatch) =
       Some [exT + 5000 * millisecond, exT + 2900 * millisecond]
   \<and> map_option (\<lambda>st. map worker (slots st)) (run exCrosstalk exBatch) = Some [Finished, Finished]
   \<and> map_option onVersion (run exCrosstalk exBatch) = Some [Some 0]"
  by (simp add: exCrosstalk_def ex_defs step_defs)

theorem shared_channels_crosstalk_witness:
  "EvGood 1 exB SFNodeNetwork SupportsAll \<in> set (trace (the (run exCrosstalk exBatch)))
   \<and> EvLog (LogVersionTimeout 1) \<in> set (trace (the (run exCrosstalk exBatch)))"
proof -
  from shared_channels_crosstalk obtain st where "run exCrosstalk exBatch = Some st"
    "trace st = [EvAttempt 0 exA, EvDial 0, EvAttempt 1 exB, EvDial 1, EvAssociate 0, EvAssociate 1,
           EvLog (LogAddingPeer 1 SFNodeNetwork SupportsAll),
           EvGood 1 exB SFNodeNetwork SupportsAll, EvQueueGetAddr 1,
           EvLog (LogVersionTimeout 1), EvDisconnect 1,
           EvLog (LogAddingPeer 0 SFNodeNetwork SupportsAll),
           EvGood 0 exA SFNodeNetwork SupportsAll, EvQueueGetAddr 0,
           EvLog (LogGetaddrTimeout 0), EvDisconnect 0]"
    by blast
  then show ?thesis by simp
qed

end
